theory Spec2Isabelle
  imports
    Main
    "HOL-Library.Char_ord"
    "HOL-Library.List_Lexorder"
    "HOL-Library.Product_Lexorder"
    "HOL-Library.Multiset"
begin

section \<open>The PDF merger of img2pdfConvertor/merge\_pdfs.py\<close>

text \<open>
  The script merges a list of PDF files into one output document. Everything it does
  to a PDF goes through the pypdf library, and everything it learns about a path goes
  through the operating system. The embedding keeps the control flow of the source and
  takes the answers of the library and of the file system as data: a file system maps
  a path to what \<^verbatim>\<open>os.path.exists\<close>, \<^verbatim>\<open>open\<close> and \<^verbatim>\<open>PdfReader\<close> answer for it.

  A path is a \<^typ>\<open>string\<close>, read as a Python \<^verbatim>\<open>str\<close> over the code points 0 to 255: a
  \<^typ>\<open>char\<close> is its code point. On these code points the functions below are those
  of Python: the regular expression \<^verbatim>\<open>\d\<close> matches \<^verbatim>\<open>0\<close> to \<^verbatim>\<open>9\<close> only, \<^verbatim>\<open>str.isdigit\<close>
  also holds of the superscripts U+00B2, U+00B3 and U+00B9, and \<^verbatim>\<open>str.lower\<close> changes
  \<^verbatim>\<open>A\<close> to \<^verbatim>\<open>Z\<close> and U+00C0 to U+00DE without U+00D7. Python integers are unbounded, so the
  value of a digit run is a \<^typ>\<open>nat\<close>; \<^verbatim>\<open>int\<close> refuses more than 4300 digits.
\<close>

subsection \<open>Strings\<close>

text \<open>What \<^verbatim>\<open>\d\<close> matches.\<close>

definition is_digit :: "char \<Rightarrow> bool" where
  "is_digit c = (CHR ''0'' \<le> c \<and> c \<le> CHR ''9'')"

text \<open>The characters of which \<^verbatim>\<open>str.isdigit\<close> holds.\<close>

definition isdigit_char :: "char \<Rightarrow> bool" where
  "isdigit_char c = (is_digit c \<or> c = CHR 0xB2 \<or> c = CHR 0xB3 \<or> c = CHR 0xB9)"

definition lower_char :: "char \<Rightarrow> char" where
  "lower_char c =
     (if (CHR ''A'' \<le> c \<and> c \<le> CHR ''Z'') \<or> (CHR 0xC0 \<le> c \<and> c \<le> CHR 0xDE \<and> c \<noteq> CHR 0xD7)
      then char_of (of_char c + (32::nat)) else c)"

text \<open>\<^verbatim>\<open>s.lower()\<close>\<close>

definition lower :: "string \<Rightarrow> string" where
  "lower s = map lower_char s"

text \<open>\<^verbatim>\<open>s.isdigit()\<close>: false on the empty string.\<close>

definition isdigit :: "string \<Rightarrow> bool" where
  "isdigit s = (s \<noteq> [] \<and> list_all isdigit_char s)"

text \<open>The value of a run of decimal digits.\<close>

definition int_of :: "string \<Rightarrow> nat" where
  "int_of s = foldl (\<lambda>n c. 10 * n + (of_char c - 48)) 0 s"

text \<open>The exception that leaves \<^verbatim>\<open>merge_pdfs\<close> uncaught.\<close>

datatype pyerr = ValueError

text \<open>The default of \<^verbatim>\<open>sys.get_int_max_str_digits()\<close>.\<close>

definition max_str_digits :: nat where
  "max_str_digits = 4300"

text \<open>
  \<^verbatim>\<open>int(s)\<close> for a string of which \<^verbatim>\<open>isdigit\<close> holds: the value when every character is a
  decimal digit and there are at most 4300 of them (leading zeros count), and
  \<^verbatim>\<open>ValueError\<close> otherwise.
\<close>

definition py_int :: "string \<Rightarrow> pyerr + nat" where
  "py_int s =
     (if list_all is_digit s \<and> length s \<le> max_str_digits then Inr (int_of s)
      else Inl ValueError)"

text \<open>\<^verbatim>\<open>s.endswith(suffix)\<close>\<close>

definition endswith :: "string \<Rightarrow> string \<Rightarrow> bool" where
  "endswith s suffix =
     (length suffix \<le> length s \<and> drop (length s - length suffix) s = suffix)"

text \<open>\<^verbatim>\<open>os.path.basename(path)\<close> (POSIX): what follows the last slash.\<close>

definition basename :: "string \<Rightarrow> string" where
  "basename path = rev (takeWhile (\<lambda>c. c \<noteq> CHR ''/'') (rev path))"

text \<open>
  \<^verbatim>\<open>os.path.join(a, b)\<close> (POSIX, two arguments): an absolute \<^verbatim>\<open>b\<close> replaces \<^verbatim>\<open>a\<close>;
  a separator is added unless \<^verbatim>\<open>a\<close> is empty or ends with one.
\<close>

definition os_path_join :: "string \<Rightarrow> string \<Rightarrow> string" where
  "os_path_join a b =
     (if b \<noteq> [] \<and> hd b = CHR ''/'' then b
      else if a = [] \<or> last a = CHR ''/'' then a @ b
      else a @ ''/'' @ b)"

subsection \<open>The natural sort key\<close>

text \<open>
  \<^verbatim>\<open>re.split(r'(\d+)', s)\<close>: the capturing group keeps the digit runs, so the result
  alternates: a run without digits (empty when two matches are adjacent to each other or
  to an end of the string), a run of digits, a run without digits, and so on, always
  ending with a run without digits.
\<close>

function re_split :: "string \<Rightarrow> string list" where
  "re_split s =
     (let pre = takeWhile (\<lambda>c. \<not> is_digit c) s;
          rest = dropWhile (\<lambda>c. \<not> is_digit c) s
      in if rest = [] then [pre]
         else pre # takeWhile is_digit rest # re_split (dropWhile is_digit rest))"
  by pat_completeness auto
termination
proof (relation "measure length")
  show "wf (measure length)" by simp
next
  fix s :: string and pre rest
  assume r: "rest = dropWhile (\<lambda>c. \<not> is_digit c) s" and ne: "rest \<noteq> []"
  obtain c cs where rc: "rest = c # cs" using ne by (cases rest) auto
  have "\<not> \<not> is_digit (hd rest)" using ne unfolding r by (rule hd_dropWhile)
  then have "is_digit c" using rc by simp
  then have "length (dropWhile is_digit rest) \<le> length cs"
    by (simp add: rc length_dropWhile_le)
  moreover have "length rest \<le> length s" using r by (simp add: length_dropWhile_le)
  ultimately show "(dropWhile is_digit rest, s) \<in> measure length"
    using rc by simp
qed

declare re_split.simps [simp del]

text \<open>An element of a key: a lower-cased text run or the number of a digit run.\<close>

datatype tok = Txt string | Num nat

text \<open>
  \<^verbatim>\<open>int(text) if text.isdigit() else text.lower()\<close>: the conversion raises on a run of
  more than 4300 digits, and on a run between the matches of \<^verbatim>\<open>\d+\<close> that is made of
  superscript digits only.
\<close>

definition key_of_run :: "string \<Rightarrow> pyerr + tok" where
  "key_of_run text =
     (if isdigit text
      then (case py_int text of Inl e \<Rightarrow> Inl e | Inr n \<Rightarrow> Inr (Num n))
      else Inr (Txt (lower text)))"

text \<open>A list comprehension: the first element that raises ends it.\<close>

fun collect :: "(pyerr + 'a) list \<Rightarrow> pyerr + 'a list" where
  "collect [] = Inr []"
| "collect (x # xs) =
     (case x of
        Inl e \<Rightarrow> Inl e
      | Inr v \<Rightarrow> (case collect xs of Inl e \<Rightarrow> Inl e | Inr vs \<Rightarrow> Inr (v # vs)))"

text \<open>
  \<^verbatim>\<open>[int(text) if text.isdigit() else text.lower() for text in re.split(r'(\d+)', s)]\<close>
\<close>

definition natural_sort_key :: "string \<Rightarrow> pyerr + tok list" where
  "natural_sort_key s = collect (map key_of_run (re_split s))"

text \<open>
  Python's \<^verbatim>\<open><\<close> on key elements: two strings compare lexicographically by code point
  (the order of \<^typ>\<open>string\<close> here), two integers numerically, and a string against an
  integer raises \<^verbatim>\<open>TypeError\<close>, the result \<^const>\<open>None\<close>.
\<close>

fun tok_lt :: "tok \<Rightarrow> tok \<Rightarrow> bool option" where
  "tok_lt (Txt a) (Txt b) = Some (a < b)"
| "tok_lt (Num m) (Num n) = Some (m < n)"
| "tok_lt (Txt a) (Num n) = None"
| "tok_lt (Num m) (Txt b) = None"

text \<open>
  Python's \<^verbatim>\<open><\<close> on lists: the first position where the elements are not equal
  decides; without one, the shorter list is the smaller.
\<close>

fun list_lt :: "tok list \<Rightarrow> tok list \<Rightarrow> bool option" where
  "list_lt [] [] = Some False"
| "list_lt [] (y # ys) = Some True"
| "list_lt (x # xs) [] = Some False"
| "list_lt (x # xs) (y # ys) = (if x = y then list_lt xs ys else tok_lt x y)"

text \<open>
  \<^verbatim>\<open>input_paths.sort(key=natural_sort_key)\<close> first computes the key of every element, in
  order; an exception of the key function ends the call and leaves the list as it was.
  Otherwise the list is sorted by these keys: Python's sort is stable and compares keys
  with \<^verbatim>\<open><\<close> only. \<^term>\<open>key_of\<close> is the key of a path whose key was computed;
  \<^term>\<open>natural_sorted\<close> is the stable insertion sort by these keys, where an element
  goes in front of the first element whose key is not smaller than its own.
\<close>

definition key_of :: "string \<Rightarrow> tok list" where
  "key_of s = (case natural_sort_key s of Inl e \<Rightarrow> [] | Inr k \<Rightarrow> k)"

definition key_lt :: "string \<Rightarrow> string \<Rightarrow> bool" where
  "key_lt a b = (list_lt (key_of a) (key_of b) = Some True)"

fun insort_natural :: "string \<Rightarrow> string list \<Rightarrow> string list" where
  "insort_natural x [] = [x]"
| "insort_natural x (y # ys) =
     (if key_lt y x then y # insort_natural x ys else x # y # ys)"

definition natural_sorted :: "string list \<Rightarrow> string list" where
  "natural_sorted xs = foldr insort_natural xs []"

definition list_sort :: "string list \<Rightarrow> pyerr + string list" where
  "list_sort xs =
     (case collect (map natural_sort_key xs) of
        Inl e \<Rightarrow> Inl e
      | Inr keys \<Rightarrow> Inr (natural_sorted xs))"

subsection \<open>The file system and the PDF library, as the script sees them\<close>

text \<open>The two exception classes the per-file handler tells apart.\<close>

datatype exn = PdfReadError | OtherException

text \<open>
  What \<^verbatim>\<open>reader.decrypt('')\<close> does: it raises, or it returns that the password did not
  open the document, or that it did. pypdf reports a wrong password by the returned
  value; the script does not look at it.
\<close>

datatype decrypt_result = DecryptRaises | NotDecrypted | Decrypted

text \<open>
  What a \<^verbatim>\<open>PdfReader\<close> answers: \<^verbatim>\<open>reader.is_encrypted\<close>; \<^verbatim>\<open>reader.decrypt('')\<close>;
  \<^verbatim>\<open>reader.pages\<close>, read after the decryption attempt, which raises or gives the pages
  (on a document that is still encrypted pypdf raises a \<^verbatim>\<open>PdfReadError\<close>); and whether
  \<^verbatim>\<open>merger.append(fileobj=infile)\<close> raises.
\<close>

record 'p reader =
  is_encrypted :: bool
  decrypt_empty :: decrypt_result
  pages :: "exn + 'p list"
  append_raises :: "exn option"

text \<open>
  An existing path: \<^verbatim>\<open>open(path, 'rb')\<close> raises (a directory, no permission),
  \<^verbatim>\<open>PdfReader(infile)\<close> raises, or there is a reader.
\<close>

datatype 'p entry = CannotOpen | CannotParse exn | Document "'p reader"

text \<open>\<^const>\<open>None\<close>: \<^verbatim>\<open>os.path.exists(path)\<close> is false.\<close>

type_synonym 'p fs = "string \<Rightarrow> 'p entry option"

text \<open>Whether \<^verbatim>\<open>open(output_path, 'wb')\<close> and \<^verbatim>\<open>merger.write(outfile)\<close> raise.\<close>

record out_env =
  open_raises :: bool
  write_raises :: bool

text \<open>
  The line the script prints for a candidate: \<^verbatim>\<open>Added n pages.\<close>,
  \<^verbatim>\<open>File not found, skipping\<close>, \<^verbatim>\<open>File is not a PDF, skipping\<close>,
  \<^verbatim>\<open>File is encrypted and could not be decrypted\<close>,
  \<^verbatim>\<open>File seems empty or corrupted (0 pages)\<close>, and the two handlers
  \<^verbatim>\<open>Could not read PDF (possibly corrupted)\<close> for \<^const>\<open>PdfReadError\<close> and
  \<^verbatim>\<open>An unexpected error occurred\<close> for any other exception.
\<close>

datatype outcome =
    Merged nat
  | SkippedNotFound
  | SkippedNotPdf
  | SkippedEncryptedUndecryptable
  | SkippedEmptyOrCorrupt
  | SkippedUnexpectedError exn

text \<open>The calls on the writer, the decryption calls and the opening of the output.\<close>

datatype event =
    WriterNew
  | Decrypt string string
  | Append string
  | OpenOutput string
  | WriterWrite
  | WriterClose

text \<open>
  The local variables of \<^verbatim>\<open>merge_pdfs\<close>: the pages the writer holds,
  \<^verbatim>\<open>pdf_files_processed\<close>, \<^verbatim>\<open>total_pages_added\<close>, the per-file lines printed so far and
  the calls made so far.
\<close>

record 'p run_state =
  merger :: "'p list"
  pdf_files_processed :: "string list"
  total_pages_added :: nat
  outcomes :: "(string \<times> outcome) list"
  trace :: "event list"

text \<open>
  What the run leaves at \<^verbatim>\<open>output_path\<close>: nothing was opened there; the file was
  created or emptied by \<^verbatim>\<open>open(output_path, 'wb')\<close> and the serialisation did not
  finish; or the document was written.
\<close>

datatype 'p out_state = Untouched | Truncated | Written "'p list"

text \<open>
  The caller passes a reference to its list of paths; \<^verbatim>\<open>list.sort\<close> works in place. The
  store maps a reference to the list it holds.
\<close>

type_synonym ref = nat
type_synonym store = "ref \<Rightarrow> string list"

text \<open>How a call ends: it returns a value, or an exception leaves it.\<close>

datatype completion = Returned bool | Raised pyerr

record 'p result =
  completed :: completion
  final :: "'p run_state"
  at_output :: "'p out_state"
  heap :: store

subsection \<open>merge\_pdfs\<close>

definition emit :: "event \<Rightarrow> 'p run_state \<Rightarrow> 'p run_state" where
  "emit e s = s\<lparr>trace := trace s @ [e]\<rparr>"

text \<open>A message and \<^verbatim>\<open>continue\<close> (or a handler that falls through to the next path).\<close>

definition skip :: "string \<Rightarrow> outcome \<Rightarrow> 'p run_state \<Rightarrow> 'p run_state" where
  "skip path oc s = s\<lparr>outcomes := outcomes s @ [(path, oc)]\<rparr>"

text \<open>
  Lines 59 to 68: count the pages, skip a document without pages, append the whole file.
  Modelled from the spec: the library's \<^verbatim>\<open>append\<close> is missing from the sources; by the
  spec it appends all pages of the document, in their order, and here a call that raises
  has appended none.
\<close>

definition count_and_append :: "'p reader \<Rightarrow> string \<Rightarrow> 'p run_state \<Rightarrow> 'p run_state" where
  "count_and_append reader path s =
     (case pages reader of
        Inl e \<Rightarrow> skip path (SkippedUnexpectedError e) s
      | Inr ps \<Rightarrow>
          let num_pages = length ps in
          if num_pages = 0 then skip path SkippedEmptyOrCorrupt s
          else
            (case append_raises reader of
               Some e \<Rightarrow> skip path (SkippedUnexpectedError e) (emit (Append path) s)
             | None \<Rightarrow>
                 (emit (Append path) s)
                   \<lparr>merger := merger s @ ps,
                    pdf_files_processed := pdf_files_processed s @ [basename path],
                    total_pages_added := total_pages_added s + num_pages,
                    outcomes := outcomes s @ [(path, Merged num_pages)]\<rparr>))"

text \<open>
  The body of the loop, lines 38 to 73. Only an exception of \<^verbatim>\<open>reader.decrypt('')\<close>
  takes the branch of line 55; after a call that returns, whatever it returns, the
  script goes on to count the pages.
\<close>

definition process_file :: "'p fs \<Rightarrow> string \<Rightarrow> 'p run_state \<Rightarrow> 'p run_state" where
  "process_file fs path s =
     (case fs path of
        None \<Rightarrow> skip path SkippedNotFound s
      | Some f \<Rightarrow>
          if \<not> endswith (lower path) ''.pdf'' then skip path SkippedNotPdf s
          else
            (case f of
               CannotOpen \<Rightarrow> skip path (SkippedUnexpectedError OtherException) s
             | CannotParse e \<Rightarrow> skip path (SkippedUnexpectedError e) s
             | Document reader \<Rightarrow>
                 if is_encrypted reader then
                   let s1 = emit (Decrypt path '''') s in
                   if decrypt_empty reader = DecryptRaises
                   then skip path SkippedEncryptedUndecryptable s1
                   else count_and_append reader path s1
                 else count_and_append reader path s))"

text \<open>\<^verbatim>\<open>for path in input_paths\<close>\<close>

primrec merge_loop :: "'p fs \<Rightarrow> string list \<Rightarrow> 'p run_state \<Rightarrow> 'p run_state" where
  "merge_loop fs [] s = s"
| "merge_loop fs (path # rest) s = merge_loop fs rest (process_file fs path s)"

definition initial_state :: "'p run_state" where
  "initial_state =
     \<lparr>merger = [], pdf_files_processed = [], total_pages_added = 0,
      outcomes = [], trace = [WriterNew]\<rparr>"

text \<open>
  Lines 31 and 32: the list the loop will read, or the exception of the sort. The sort
  stands outside every \<^verbatim>\<open>try\<close>.
\<close>

definition sorted_input :: "store \<Rightarrow> ref \<Rightarrow> bool \<Rightarrow> pyerr + string list" where
  "sorted_input h input_paths sort_files =
     (if sort_files then list_sort (h input_paths) else Inr (h input_paths))"

text \<open>
  The writer is created at line 24, before the sort; an exception of the sort leaves the
  function at line 32, with the list unchanged, nothing printed for any file and the
  writer not closed.
\<close>

definition merge_pdfs ::
  "'p fs \<Rightarrow> out_env \<Rightarrow> store \<Rightarrow> ref \<Rightarrow> string \<Rightarrow> bool \<Rightarrow> 'p result" where
  "merge_pdfs fs env h input_paths output_path sort_files =
     (case sorted_input h input_paths sort_files of
        Inl e \<Rightarrow>
          \<lparr>completed = Raised e, final = initial_state, at_output = Untouched, heap = h\<rparr>
      | Inr paths \<Rightarrow>
          let h1 = (if sort_files then h(input_paths := paths) else h);
              s = merge_loop fs paths initial_state
          in if pdf_files_processed s = [] then
               \<lparr>completed = Returned False, final = emit WriterClose s,
                at_output = Untouched, heap = h1\<rparr>
             else
               let s1 = emit (OpenOutput output_path) s in
               if open_raises env then
                 \<lparr>completed = Returned False, final = emit WriterClose s1,
                  at_output = Untouched, heap = h1\<rparr>
               else
                 let s2 = emit WriterWrite s1 in
                 if write_raises env then
                   \<lparr>completed = Returned False, final = emit WriterClose s2,
                    at_output = Truncated, heap = h1\<rparr>
                 else
                   \<lparr>completed = Returned True, final = emit WriterClose s2,
                    at_output = Written (merger s), heap = h1\<rparr>)"

subsection \<open>find\_pdfs\_in\_directory\<close>

text \<open>
  \<^const>\<open>None\<close>: \<^verbatim>\<open>os.path.isdir\<close> is false; otherwise the names \<^verbatim>\<open>os.listdir\<close> gives, in
  its order.
\<close>

type_synonym dirs = "string \<Rightarrow> string list option"

text \<open>\<^verbatim>\<open>sys.exit(code)\<close>\<close>

datatype exit = SystemExit nat

text \<open>\<^verbatim>\<open>for filename in os.listdir(directory_path)\<close>, with \<^verbatim>\<open>pdf_files\<close> as accumulator.\<close>

primrec scan_entries :: "string \<Rightarrow> string list \<Rightarrow> string list \<Rightarrow> string list" where
  "scan_entries directory_path [] pdf_files = pdf_files"
| "scan_entries directory_path (filename # rest) pdf_files =
     (if endswith (lower filename) ''.pdf''
      then scan_entries directory_path rest
             (pdf_files @ [os_path_join directory_path filename])
      else scan_entries directory_path rest pdf_files)"

definition find_pdfs_in_directory :: "dirs \<Rightarrow> string \<Rightarrow> exit + string list" where
  "find_pdfs_in_directory d directory_path =
     (case d directory_path of
        None \<Rightarrow> Inl (SystemExit 1)
      | Some names \<Rightarrow> Inr (scan_entries directory_path names []))"

subsection \<open>What the claims are stated with\<close>

text \<open>A run that holds no decimal digit, and a non-empty run of decimal digits.\<close>

definition no_digits :: "string \<Rightarrow> bool" where
  "no_digits t = list_all (\<lambda>c. \<not> is_digit c) t"

definition all_digits :: "string \<Rightarrow> bool" where
  "all_digits d = (d \<noteq> [] \<and> list_all is_digit d)"

text \<open>
  The spec's split of a path: runs without digits and runs of digits alternate, a run
  without digits comes first and last, and only these two may be empty (so every run is
  as long as it can be).
\<close>

fun is_run_split :: "string list \<Rightarrow> bool" where
  "is_run_split [] = False"
| "is_run_split [t] = no_digits t"
| "is_run_split (t # d # rest) =
     (no_digits t \<and> all_digits d \<and> is_run_split rest \<and> (length rest = 1 \<or> hd rest \<noteq> []))"

text \<open>
  The runs on which line 10 raises: \<^verbatim>\<open>isdigit\<close> holds of the run and \<^verbatim>\<open>int\<close> refuses it.
  These are the digit runs of more than 4300 digits and the runs between the digits that
  are made of superscript digits only.
\<close>

definition run_fails :: "string \<Rightarrow> bool" where
  "run_fails t = (isdigit t \<and> \<not> (list_all is_digit t \<and> length t \<le> max_str_digits))"

definition key_fails :: "string \<Rightarrow> bool" where
  "key_fails s = list_ex run_fails (re_split s)"

text \<open>Line 32 raises: sorting is on and the key of some path of the list raises.\<close>

definition sort_raises :: "store \<Rightarrow> ref \<Rightarrow> bool \<Rightarrow> bool" where
  "sort_raises h input_paths sort_files = (sort_files \<and> list_ex key_fails (h input_paths))"

text \<open>A key whose elements alternate, a text element first when the flag is set.\<close>

fun shaped :: "bool \<Rightarrow> tok list \<Rightarrow> bool" where
  "shaped b [] = True"
| "shaped b (Txt a # ks) = (b \<and> shaped False ks)"
| "shaped b (Num n # ks) = (\<not> b \<and> shaped True ks)"

text \<open>
  Keys of the same shape, read in a linear order of the library: the lexicographic order
  on lists of pairs.
\<close>

definition emb :: "tok \<Rightarrow> string \<times> nat" where
  "emb k = (case k of Txt a \<Rightarrow> (a, 0) | Num n \<Rightarrow> ([], n))"

definition kemb :: "string \<Rightarrow> (string \<times> nat) list" where
  "kemb s = map emb (key_of s)"

definition is_merged :: "outcome \<Rightarrow> bool" where
  "is_merged oc = (case oc of Merged n \<Rightarrow> True | _ \<Rightarrow> False)"

text \<open>The page sequence of the document at a path.\<close>

definition pages_of :: "'p fs \<Rightarrow> string \<Rightarrow> 'p list" where
  "pages_of fs path =
     (case fs path of
        Some (Document reader) \<Rightarrow> (case pages reader of Inr ps \<Rightarrow> ps | Inl e \<Rightarrow> [])
      | _ \<Rightarrow> [])"

text \<open>
  What one pass of the loop body does for a candidate, read off \<^const>\<open>process_file\<close>: the
  line it prints, the pages it adds to the writer and the calls it makes.
\<close>

definition outcome_of :: "'p fs \<Rightarrow> string \<Rightarrow> outcome" where
  "outcome_of fs path = snd (last (outcomes (process_file fs path initial_state)))"

definition contribution :: "'p fs \<Rightarrow> string \<Rightarrow> 'p list" where
  "contribution fs path = merger (process_file fs path initial_state)"

definition file_events :: "'p fs \<Rightarrow> string \<Rightarrow> event list" where
  "file_events fs path = tl (trace (process_file fs path initial_state))"

text \<open>
  The outcome of one candidate as the spec words it, steps 1 to 6 of its algorithm. Step
  4 reads: if the document reports itself encrypted, attempt decryption with an empty
  password; if decryption fails, the outcome is SkippedEncryptedUndecryptable. The
  decryption has failed when the call did not open the document, whether it raised or
  returned that the password is wrong.
\<close>

definition classify_spec :: "'p fs \<Rightarrow> string \<Rightarrow> outcome" where
  "classify_spec fs path =
     (case fs path of
        None \<Rightarrow> SkippedNotFound
      | Some f \<Rightarrow>
          if \<not> endswith (lower path) ''.pdf'' then SkippedNotPdf
          else
            (case f of
               CannotOpen \<Rightarrow> SkippedUnexpectedError OtherException
             | CannotParse e \<Rightarrow> SkippedUnexpectedError e
             | Document reader \<Rightarrow>
                 if is_encrypted reader \<and> decrypt_empty reader \<noteq> Decrypted
                 then SkippedEncryptedUndecryptable
                 else
                   (case pages reader of
                      Inl e \<Rightarrow> SkippedUnexpectedError e
                    | Inr ps \<Rightarrow>
                        if ps = [] then SkippedEmptyOrCorrupt
                        else
                          (case append_raises reader of
                             Some e \<Rightarrow> SkippedUnexpectedError e
                           | None \<Rightarrow> Merged (length ps)))))"

text \<open>The paths the loop sees, in its order: none when line 32 raises.\<close>

definition processing_order :: "store \<Rightarrow> ref \<Rightarrow> bool \<Rightarrow> string list" where
  "processing_order h input_paths sort_files =
     (case sorted_input h input_paths sort_files of Inl e \<Rightarrow> [] | Inr paths \<Rightarrow> paths)"

definition any_merged :: "'p fs \<Rightarrow> string list \<Rightarrow> bool" where
  "any_merged fs paths = list_ex (\<lambda>p. is_merged (outcome_of fs p)) paths"

text \<open>
  The file system a run leaves behind. Modelled from the spec: the operating system and
  the library's \<^verbatim>\<open>write\<close> are missing from the sources; by the spec the output path is
  overwritten with the accumulated document, which is a readable document that is not
  encrypted and holds the writer's pages. A file that was opened for writing and not
  written is one that \<^verbatim>\<open>PdfReader\<close> refuses. Distinct paths are taken to name distinct
  files.
\<close>

definition written_doc :: "'p list \<Rightarrow> 'p entry" where
  "written_doc ps =
     Document \<lparr>is_encrypted = False, decrypt_empty = Decrypted, pages = Inr ps,
       append_raises = None\<rparr>"


subsection \<open>A small file system to run the script on\<close>

text \<open>Pages are numbers. A readable document that is not encrypted:\<close>

definition plain :: "nat list \<Rightarrow> nat entry" where
  "plain ps = written_doc ps"

text \<open>
  A document encrypted with a password that is not empty: \<^verbatim>\<open>decrypt('')\<close> returns that the
  password is wrong and \<^verbatim>\<open>reader.pages\<close> raises a \<^verbatim>\<open>PdfReadError\<close>, the file not being
  decrypted.
\<close>

definition locked_reader :: "nat reader" where
  "locked_reader = \<lparr>is_encrypted = True, decrypt_empty = NotDecrypted,
     pages = Inl PdfReadError, append_raises = None\<rparr>"

text \<open>A document encrypted with the empty password:\<close>

definition open_reader :: "nat reader" where
  "open_reader = \<lparr>is_encrypted = True, decrypt_empty = Decrypted,
     pages = Inr [7], append_raises = None\<rparr>"

text \<open>A document encrypted in a way the library cannot handle: \<^verbatim>\<open>decrypt('')\<close> raises.\<close>

definition unsupported_reader :: "nat reader" where
  "unsupported_reader = \<lparr>is_encrypted = True, decrypt_empty = DecryptRaises,
     pages = Inl PdfReadError, append_raises = None\<rparr>"

definition demo_fs :: "nat fs" where
  "demo_fs =
     (\<lambda>p. None)(''file1.pdf'' \<mapsto> plain [1, 2], ''file2.pdf'' \<mapsto> plain [3],
       ''file10.pdf'' \<mapsto> plain [4, 5], ''notes.txt'' \<mapsto> plain [6],
       ''locked.pdf'' \<mapsto> Document locked_reader, ''empty.pdf'' \<mapsto> plain [],
       ''broken.pdf'' \<mapsto> CannotParse PdfReadError,
       ''open.pdf'' \<mapsto> Document open_reader,
       ''unsupported.pdf'' \<mapsto> Document unsupported_reader)"

text \<open>The caller's list is held at reference 0.\<close>

definition demo_heap :: store where
  "demo_heap = (\<lambda>r. [])(0 := [''file10.pdf'', ''notes.txt'', ''file2.pdf'', ''locked.pdf'',
     ''missing.pdf'', ''file1.pdf'', ''empty.pdf'', ''broken.pdf''])"

definition skipped_heap :: store where
  "skipped_heap = (\<lambda>r. [])(0 := [''missing.pdf'', ''notes.txt'', ''locked.pdf''])"

definition encrypted_heap :: store where
  "encrypted_heap = (\<lambda>r. [])(0 := [''file1.pdf'', ''locked.pdf'', ''unsupported.pdf'',
     ''open.pdf''])"

text \<open>
  The path \<^verbatim>\<open>10\<close> followed by the superscript two, U+00B2, and a path of 4301 digits: on
  each of them the key function raises.\<close>

definition squared :: string where
  "squared = ''10'' @ [CHR 0xB2]"

definition long_digits :: string where
  "long_digits = replicate 4301 (CHR ''1'')"

definition raising_heap :: store where
  "raising_heap = (\<lambda>r. [])(0 := [''file1.pdf'', squared])"

definition long_heap :: store where
  "long_heap = (\<lambda>r. [])(0 := [long_digits])"



definition ok_env :: out_env where
  "ok_env = \<lparr>open_raises = False, write_raises = False\<rparr>"

definition bad_env :: out_env where
  "bad_env = \<lparr>open_raises = False, write_raises = True\<rparr>"

definition demo_dirs :: dirs where
  "demo_dirs = (\<lambda>p. None)(''docs'' \<mapsto> [''b.PDF'', ''sub'', ''a.pdf'', ''notes.txt''],
     ''docs/sub'' \<mapsto> [''deep.pdf''])"

section \<open>Properties\<close>

subsection \<open>The split and the sort\<close>

lemma re_split_last:
  "dropWhile (\<lambda>c. \<not> is_digit c) s = [] \<Longrightarrow> re_split s = [s]"
proof -
  assume a: "dropWhile (\<lambda>c. \<not> is_digit c) s = []"
  have "takeWhile (\<lambda>c. \<not> is_digit c) s @ dropWhile (\<lambda>c. \<not> is_digit c) s = s"
    by (rule takeWhile_dropWhile_id)
  then have t: "takeWhile (\<lambda>c. \<not> is_digit c) s = s" unfolding a by simp
  have "re_split s = [takeWhile (\<lambda>c. \<not> is_digit c) s]"
    by (subst re_split.simps) (simp only: a Let_def refl if_True)
  then show ?thesis unfolding t .
qed

lemma re_split_more:
  "dropWhile (\<lambda>c. \<not> is_digit c) s \<noteq> [] \<Longrightarrow>
   re_split s =
     takeWhile (\<lambda>c. \<not> is_digit c) s
       # takeWhile is_digit (dropWhile (\<lambda>c. \<not> is_digit c) s)
       # re_split (dropWhile is_digit (dropWhile (\<lambda>c. \<not> is_digit c) s))"
  by (subst re_split.simps) (simp only: Let_def if_False)

lemma concat_re_split: "concat (re_split s) = s"
proof (induction s rule: re_split.induct)
  case (1 s)
  let ?rest = "dropWhile (\<lambda>c. \<not> is_digit c) s"
  show ?case
  proof (cases "?rest = []")
    case True
    then show ?thesis by (simp add: re_split_last)
  next
    case False
    have ih: "concat (re_split (dropWhile is_digit ?rest)) = dropWhile is_digit ?rest"
      using False by (rule "1.IH" [OF refl refl])
    show ?thesis
      unfolding re_split_more [OF False] by (simp add: ih)
  qed
qed

lemma no_digits_takeWhile: "no_digits (takeWhile (\<lambda>c. \<not> is_digit c) s)"
  unfolding no_digits_def list_all_iff by (auto dest: set_takeWhileD)

lemma hd_re_split: "hd (re_split s) = takeWhile (\<lambda>c. \<not> is_digit c) s"
proof (cases "dropWhile (\<lambda>c. \<not> is_digit c) s = []")
  case True
  then have "\<forall>c\<in>set s. \<not> is_digit c" by simp
  then have t: "takeWhile (\<lambda>c. \<not> is_digit c) s = s" by simp
  show ?thesis unfolding re_split_last [OF True] t by simp
next
  case False
  show ?thesis unfolding re_split_more [OF False] by simp
qed

lemma is_run_split_re_split: "is_run_split (re_split s)"
proof (induction s rule: re_split.induct)
  case (1 s)
  let ?rest = "dropWhile (\<lambda>c. \<not> is_digit c) s"
  show ?case
  proof (cases "?rest = []")
    case True
    from True have "\<forall>c\<in>set s. \<not> is_digit c" by simp
    then have "no_digits s" by (simp add: no_digits_def list_all_iff)
    then show ?thesis unfolding re_split_last [OF True] by simp
  next
    case False
    have "\<not> \<not> is_digit (hd ?rest)" using False by (rule hd_dropWhile)
    then have hd: "is_digit (hd ?rest)" by simp
    obtain c cs where rc: "?rest = c # cs" using False by (cases ?rest) auto
    with hd have c: "is_digit c" by simp
    have "takeWhile is_digit ?rest \<noteq> []" unfolding rc using c by simp
    moreover have "list_all is_digit (takeWhile is_digit ?rest)"
      unfolding list_all_iff by (auto dest: set_takeWhileD)
    ultimately have dig: "all_digits (takeWhile is_digit ?rest)"
      unfolding all_digits_def by simp
    let ?tl = "dropWhile is_digit ?rest"
    have ih: "is_run_split (re_split ?tl)"
      using False by (rule "1.IH" [OF refl refl])
    have nxt: "length (re_split ?tl) = 1 \<or> hd (re_split ?tl) \<noteq> []"
    proof (cases "?tl = []")
      case True
      have "dropWhile (\<lambda>c. \<not> is_digit c) ?tl = []" unfolding True by simp
      then have "re_split ?tl = [?tl]" by (rule re_split_last)
      then show ?thesis by simp
    next
      case False
      then have nd: "\<not> is_digit (hd ?tl)" by (rule hd_dropWhile)
      obtain d ds where tl: "?tl = d # ds" using False by (cases ?tl) auto
      have "\<not> is_digit d" using nd unfolding tl by simp
      then have "takeWhile (\<lambda>c. \<not> is_digit c) ?tl \<noteq> []"
        unfolding tl by simp
      then show ?thesis unfolding hd_re_split by (rule disjI2)
    qed
    have "is_run_split (takeWhile (\<lambda>c. \<not> is_digit c) s
            # takeWhile is_digit ?rest # re_split ?tl)"
      unfolding is_run_split.simps using dig ih nxt no_digits_takeWhile [of s]
      by (intro conjI)
    then show ?thesis unfolding re_split_more [OF False] .
  qed
qed

lemma re_split_all_digits: "all_digits d \<Longrightarrow> re_split d = ['''', d, '''']"
proof -
  assume d: "all_digits d"
  then obtain c cs where dc: "d = c # cs" by (cases d) (auto simp: all_digits_def)
  have all: "\<forall>x\<in>set d. is_digit x" using d by (simp add: all_digits_def list_all_iff)
  have c: "is_digit c" using all dc by simp
  have dw: "dropWhile (\<lambda>c. \<not> is_digit c) d = d" unfolding dc using c by simp
  have tw: "takeWhile (\<lambda>c. \<not> is_digit c) d = []" unfolding dc using c by simp
  have td: "takeWhile is_digit d = d" using all by simp
  have dd: "dropWhile is_digit d = []" using all by simp
  have ne: "dropWhile (\<lambda>c. \<not> is_digit c) d \<noteq> []" using c by (simp add: dc)
  have e: "re_split [] = ['''']" by (rule re_split_last) simp
  show ?thesis unfolding re_split_more [OF ne] dw tw td dd e ..
qed

lemma pyerr_eq: "(e :: pyerr) = ValueError"
  by (cases e) simp

lemma collect_Inr: "collect xs = Inr vs \<longleftrightarrow> xs = map Inr vs"
proof (induction xs arbitrary: vs)
  case Nil
  show ?case by auto
next
  case (Cons x xs)
  show ?case
  proof (cases x)
    case (Inl e)
    then show ?thesis by auto
  next
    case (Inr v)
    show ?thesis
    proof (cases "collect xs")
      case (Inl e)
      then have "\<And>ws. xs \<noteq> map Inr ws" using Cons.IH by auto
      then show ?thesis using Inl \<open>x = Inr v\<close> by auto
    next
      case r: (Inr ws)
      then have "xs = map Inr ws" using Cons.IH by simp
      then show ?thesis using r \<open>x = Inr v\<close> by auto
    qed
  qed
qed

lemma collect_raises: "collect xs = Inl ValueError \<longleftrightarrow> list_ex isl xs"
proof (induction xs)
  case Nil
  show ?case by simp
next
  case (Cons x xs)
  show ?case
  proof (cases x)
    case (Inl e)
    then show ?thesis by (simp add: pyerr_eq [of e])
  next
    case (Inr v)
    then show ?thesis using Cons.IH by (cases "collect xs") (simp_all add: pyerr_eq)
  qed
qed

lemma isdigit_all_digits: "all_digits d \<Longrightarrow> isdigit d"
  by (auto simp: all_digits_def isdigit_def isdigit_char_def list_all_iff)

lemma isl_key_of_run: "isl (key_of_run t) \<longleftrightarrow> run_fails t"
  by (simp add: key_of_run_def run_fails_def py_int_def)

lemma run_fails_digits: "all_digits d \<Longrightarrow> run_fails d \<longleftrightarrow> max_str_digits < length d"
  using isdigit_all_digits [of d] by (auto simp: run_fails_def all_digits_def)

lemma run_fails_text: "no_digits t \<Longrightarrow> run_fails t \<longleftrightarrow> isdigit t"
  by (cases t) (auto simp: run_fails_def no_digits_def isdigit_def)

lemma key_of_run_digits:
  "all_digits d \<Longrightarrow> length d \<le> max_str_digits \<Longrightarrow> key_of_run d = Inr (Num (int_of d))"
  using isdigit_all_digits [of d] by (simp add: key_of_run_def py_int_def all_digits_def)

lemma key_of_run_text: "\<not> isdigit t \<Longrightarrow> key_of_run t = Inr (Txt (lower t))"
  by (simp add: key_of_run_def)

lemma key_of_run_text_Inr: "no_digits t \<Longrightarrow> key_of_run t = Inr k \<Longrightarrow> k = Txt (lower t)"
proof -
  assume n: "no_digits t" and k: "key_of_run t = Inr k"
  have "\<not> run_fails t" using k isl_key_of_run [of t] by auto
  then have "\<not> isdigit t" using run_fails_text [OF n] by simp
  then show ?thesis using k by (simp add: key_of_run_def)
qed

lemma key_of_run_digits_Inr: "all_digits d \<Longrightarrow> key_of_run d = Inr k \<Longrightarrow> k = Num (int_of d)"
proof -
  assume d: "all_digits d" and k: "key_of_run d = Inr k"
  have "\<not> run_fails d" using k isl_key_of_run [of d] by auto
  then have "length d \<le> max_str_digits" using run_fails_digits [OF d] by simp
  then show ?thesis using k key_of_run_digits [OF d] by simp
qed

lemma shaped_runs:
  "is_run_split rs \<Longrightarrow> map key_of_run rs = map Inr ks \<Longrightarrow> shaped True ks"
proof (induction rs arbitrary: ks rule: is_run_split.induct)
  case 1
  then show ?case by simp
next
  case (2 t)
  then obtain k where ks: "ks = [k]" and k: "key_of_run t = Inr k" by auto
  have "k = Txt (lower t)" using 2 k by (intro key_of_run_text_Inr) simp_all
  then show ?case using ks by simp
next
  case (3 t d rest)
  from "3.prems"(2) obtain k1 k2 ks' where ks: "ks = k1 # k2 # ks'"
    and k1: "key_of_run t = Inr k1" and k2: "key_of_run d = Inr k2"
    and r: "map key_of_run rest = map Inr ks'"
    by (auto simp: Cons_eq_map_conv)
  have n: "no_digits t" and a: "all_digits d" and s: "is_run_split rest"
    using "3.prems"(1) by simp_all
  have e1: "k1 = Txt (lower t)" using n k1 by (rule key_of_run_text_Inr)
  have e2: "k2 = Num (int_of d)" using a k2 by (rule key_of_run_digits_Inr)
  have "shaped True ks'" using s r by (rule "3.IH")
  then show ?case unfolding ks e1 e2 by simp
qed

lemma natural_sort_key_fails: "natural_sort_key s = Inl ValueError \<longleftrightarrow> key_fails s"
  by (simp add: natural_sort_key_def collect_raises key_fails_def list_ex_iff isl_key_of_run)

lemma isl_natural_sort_key: "isl (natural_sort_key s) \<longleftrightarrow> key_fails s"
  using natural_sort_key_fails [of s] pyerr_eq by (cases "natural_sort_key s") auto

lemma natural_sort_key_ok: "\<not> key_fails s \<Longrightarrow> natural_sort_key s = Inr (key_of s)"
  using isl_natural_sort_key [of s] by (cases "natural_sort_key s") (simp_all add: key_of_def)

lemma natural_sort_key_runs:
  "natural_sort_key p = Inr k \<longleftrightarrow> map key_of_run (re_split p) = map Inr k"
  by (simp add: natural_sort_key_def collect_Inr)

lemma shaped_key: "shaped True (key_of s)"
proof (cases "natural_sort_key s")
  case (Inl e)
  then show ?thesis by (simp add: key_of_def)
next
  case (Inr k)
  then have "map key_of_run (re_split s) = map Inr k" by (simp add: natural_sort_key_runs)
  with is_run_split_re_split have "shaped True k" by (rule shaped_runs)
  then show ?thesis using Inr by (simp add: key_of_def)
qed

lemma list_sort_eq:
  "list_sort xs = (if list_ex key_fails xs then Inl ValueError else Inr (natural_sorted xs))"
proof (cases "collect (map natural_sort_key xs)")
  case (Inl e)
  then have "collect (map natural_sort_key xs) = Inl ValueError" by (simp add: pyerr_eq [of e])
  then have "list_ex key_fails xs"
    by (simp add: collect_raises list_ex_iff isl_natural_sort_key)
  then show ?thesis using Inl by (simp add: list_sort_def pyerr_eq [of e])
next
  case (Inr ks)
  then have "collect (map natural_sort_key xs) \<noteq> Inl ValueError" by simp
  then have "\<not> list_ex key_fails xs"
    by (simp add: collect_raises list_ex_iff isl_natural_sort_key)
  then show ?thesis using Inr by (simp add: list_sort_def)
qed

lemma sorted_input_eq:
  "sorted_input h ip srt =
     (if sort_raises h ip srt then Inl ValueError
      else Inr (if srt then natural_sorted (h ip) else h ip))"
  by (simp add: sorted_input_def sort_raises_def list_sort_eq)

lemma processing_order_eq:
  "processing_order h ip srt =
     (if sort_raises h ip srt then [] else if srt then natural_sorted (h ip) else h ip)"
  by (simp add: processing_order_def sorted_input_eq)

lemma list_lt_emb:
  "shaped b xs \<Longrightarrow> shaped b ys \<Longrightarrow> list_lt xs ys = Some (map emb xs < map emb ys)"
proof (induction xs ys arbitrary: b rule: list_lt.induct)
  case (4 x xs y ys)
  show ?case
  proof (cases x)
    case (Txt a)
    with 4 obtain c where y: "y = Txt c" by (cases y) auto
    with 4 Txt show ?thesis by (auto simp: emb_def)
  next
    case (Num n)
    with 4 obtain m where y: "y = Num m" by (cases y) auto
    with 4 Num show ?thesis by (auto simp: emb_def)
  qed
qed (simp_all add: emb_def)

lemma key_lt_kemb: "key_lt a b \<longleftrightarrow> kemb a < kemb b"
  by (simp add: key_lt_def kemb_def list_lt_emb [OF shaped_key shaped_key])

lemma list_lt_key_total: "list_lt (key_of a) (key_of b) \<noteq> None"
  by (simp add: list_lt_emb [OF shaped_key shaped_key])

lemma insort_natural_eq: "insort_natural x ys = insort_key kemb x ys"
  by (induction ys) (auto simp: key_lt_kemb)

lemma natural_sorted_eq: "natural_sorted xs = sort_key kemb xs"
  by (induction xs) (simp_all add: natural_sorted_def insort_natural_eq)

lemma emb_inj: "shaped b xs \<Longrightarrow> shaped b ys \<Longrightarrow> map emb xs = map emb ys \<Longrightarrow> xs = ys"
proof (induction xs arbitrary: b ys)
  case Nil
  then show ?case by simp
next
  case (Cons x xs)
  then obtain y ys' where ys: "ys = y # ys'" by (cases ys) auto
  show ?case
  proof (cases x)
    case (Txt a)
    with Cons ys obtain c where y: "y = Txt c" by (cases y) auto
    with Cons ys Txt show ?thesis by (auto simp: emb_def)
  next
    case (Num n)
    with Cons ys obtain m where y: "y = Num m" by (cases y) auto
    with Cons ys Num show ?thesis by (auto simp: emb_def)
  qed
qed

lemma kemb_eq_iff: "kemb a = kemb b \<longleftrightarrow> key_of a = key_of b"
  unfolding kemb_def using emb_inj [OF shaped_key shaped_key] by auto

lemma sorted_natural_sorted: "sorted_wrt (\<lambda>a b. \<not> key_lt b a) (natural_sorted xs)"
proof -
  have "sorted (map kemb (sort_key kemb xs))" by (rule sorted_sort_key)
  then show ?thesis
    by (simp add: natural_sorted_eq sorted_wrt_map key_lt_kemb not_less)
qed

lemma stable_natural_sorted:
  "filter (\<lambda>p. key_of p = key_of q) (natural_sorted xs)
     = filter (\<lambda>p. key_of p = key_of q) xs"
  using sort_key_stable [of kemb "kemb q" xs]
  by (simp add: natural_sorted_eq kemb_eq_iff)


lemma natural_sorted_removeAll:
  "natural_sorted (removeAll p xs) = removeAll p (natural_sorted xs)"
  by (simp add: natural_sorted_eq removeAll_filter_not_eq filter_sort)

lemma mset_natural_sorted: "mset (natural_sorted xs) = mset xs"
  by (simp add: natural_sorted_eq)

lemma set_natural_sorted: "set (natural_sorted xs) = set xs"
  by (simp add: natural_sorted_eq)


lemma is_digit_one: "is_digit (CHR ''1'')"
  by code_simp

lemma all_digits_long: "all_digits long_digits" "length long_digits = 4301"
  by (simp_all add: all_digits_def long_digits_def list_all_iff is_digit_one)

lemma key_fails_long: "key_fails long_digits"
  using run_fails_digits [OF all_digits_long(1)]
  by (simp add: key_fails_def re_split_all_digits [OF all_digits_long(1)] all_digits_long(2)
      max_str_digits_def)

subsection \<open>One candidate, and the loop\<close>

lemmas run_defs = process_file_def count_and_append_def skip_def emit_def Let_def

lemma outcome_of_eq:
  "outcome_of fs path =
     (case fs path of
        None \<Rightarrow> SkippedNotFound
      | Some f \<Rightarrow>
          if \<not> endswith (lower path) ''.pdf'' then SkippedNotPdf
          else
            (case f of
               CannotOpen \<Rightarrow> SkippedUnexpectedError OtherException
             | CannotParse e \<Rightarrow> SkippedUnexpectedError e
             | Document reader \<Rightarrow>
                 if is_encrypted reader \<and> decrypt_empty reader = DecryptRaises
                 then SkippedEncryptedUndecryptable
                 else
                   (case pages reader of
                      Inl e \<Rightarrow> SkippedUnexpectedError e
                    | Inr ps \<Rightarrow>
                        if ps = [] then SkippedEmptyOrCorrupt
                        else
                          (case append_raises reader of
                             Some e \<Rightarrow> SkippedUnexpectedError e
                           | None \<Rightarrow> Merged (length ps)))))"
  by (simp add: outcome_of_def run_defs initial_state_def
      split: option.splits entry.splits sum.splits)

lemma contribution_eq:
  "contribution fs path = (if is_merged (outcome_of fs path) then pages_of fs path else [])"
  by (simp add: contribution_def outcome_of_eq run_defs initial_state_def pages_of_def
      is_merged_def split: option.splits entry.splits sum.splits)

lemma file_events_eq:
  "file_events fs path =
     (case fs path of
        Some (Document reader) \<Rightarrow>
          if \<not> endswith (lower path) ''.pdf'' then []
          else
            (if is_encrypted reader then [Decrypt path ''''] else []) @
            (if is_encrypted reader \<and> decrypt_empty reader = DecryptRaises then []
             else (case pages reader of
                     Inr ps \<Rightarrow> if ps = [] then [] else [Append path]
                   | Inl e \<Rightarrow> []))
      | _ \<Rightarrow> [])"
  by (simp add: file_events_def run_defs initial_state_def
      split: option.splits entry.splits sum.splits)

lemma outcomes_process_file:
  "outcomes (process_file fs path s) = outcomes s @ [(path, outcome_of fs path)]"
  by (simp add: run_defs outcome_of_eq
      split: option.splits entry.splits sum.splits)

lemma merger_process_file:
  "merger (process_file fs path s) = merger s @ contribution fs path"
  by (simp add: run_defs contribution_eq outcome_of_eq pages_of_def is_merged_def
      split: option.splits entry.splits sum.splits)

lemma processed_process_file:
  "pdf_files_processed (process_file fs path s) =
     pdf_files_processed s @ (if is_merged (outcome_of fs path) then [basename path] else [])"
  by (simp add: run_defs outcome_of_eq is_merged_def
      split: option.splits entry.splits sum.splits)

lemma total_process_file:
  "total_pages_added (process_file fs path s) =
     total_pages_added s + length (contribution fs path)"
  by (simp add: run_defs contribution_eq outcome_of_eq pages_of_def is_merged_def
      split: option.splits entry.splits sum.splits)

lemma trace_process_file:
  "trace (process_file fs path s) = trace s @ file_events fs path"
  by (simp add: run_defs file_events_eq
      split: option.splits entry.splits sum.splits)

lemma outcomes_merge_loop:
  "outcomes (merge_loop fs paths s) =
     outcomes s @ map (\<lambda>p. (p, outcome_of fs p)) paths"
  by (induction paths arbitrary: s) (simp_all add: outcomes_process_file)

lemma merger_merge_loop:
  "merger (merge_loop fs paths s) = merger s @ concat (map (contribution fs) paths)"
  by (induction paths arbitrary: s) (simp_all add: merger_process_file)

lemma processed_merge_loop:
  "pdf_files_processed (merge_loop fs paths s) =
     pdf_files_processed s
       @ map basename (filter (\<lambda>p. is_merged (outcome_of fs p)) paths)"
  by (induction paths arbitrary: s) (simp_all add: processed_process_file)

lemma total_merge_loop:
  "total_pages_added (merge_loop fs paths s) =
     total_pages_added s + length (concat (map (contribution fs) paths))"
  by (induction paths arbitrary: s) (simp_all add: total_process_file)

lemma trace_merge_loop:
  "trace (merge_loop fs paths s) = trace s @ concat (map (file_events fs) paths)"
  by (induction paths arbitrary: s) (simp_all add: trace_process_file)

lemma concat_contribution:
  "concat (map (contribution fs) paths) =
     concat (map (pages_of fs) (filter (\<lambda>p. is_merged (outcome_of fs p)) paths))"
  by (induction paths) (simp_all add: contribution_eq)

lemma merger_emit [simp]: "merger (emit e s) = merger s"
  and outcomes_emit [simp]: "outcomes (emit e s) = outcomes s"
  and processed_emit [simp]: "pdf_files_processed (emit e s) = pdf_files_processed s"
  and trace_emit [simp]: "trace (emit e s) = trace s @ [e]"
  by (simp_all add: emit_def)

lemma initial_fields [simp]:
  "merger initial_state = []" "outcomes initial_state = []"
  "pdf_files_processed initial_state = []" "trace initial_state = [WriterNew]"
  by (simp_all add: initial_state_def)

lemma processed_empty_iff:
  "pdf_files_processed (merge_loop fs paths initial_state) = [] \<longleftrightarrow> \<not> any_merged fs paths"
  by (simp add: processed_merge_loop any_merged_def list_ex_iff filter_empty_conv)

lemma any_merged_Nil [simp]: "\<not> any_merged fs []"
  by (simp add: any_merged_def)

lemma merge_pdfs_raised:
  "sort_raises h ip srt \<Longrightarrow>
   merge_pdfs fs env h ip out srt =
     \<lparr>completed = Raised ValueError, final = initial_state, at_output = Untouched, heap = h\<rparr>"
  by (simp add: merge_pdfs_def sorted_input_eq)

lemma completed_merge_pdfs:
  "completed (merge_pdfs fs env h ip out srt) =
     (if sort_raises h ip srt then Raised ValueError
      else Returned (any_merged fs (processing_order h ip srt)
             \<and> \<not> open_raises env \<and> \<not> write_raises env))"
  by (simp add: merge_pdfs_def sorted_input_eq processing_order_eq Let_def processed_empty_iff)

lemma raised_iff:
  "(\<exists>e. completed (merge_pdfs fs env h ip out srt) = Raised e) \<longleftrightarrow> sort_raises h ip srt"
  by (simp add: completed_merge_pdfs)

lemma final_merge_pdfs:
  "final (merge_pdfs fs env h ip out srt) =
     (if sort_raises h ip srt then initial_state
      else
        let s = merge_loop fs (processing_order h ip srt) initial_state in
        emit WriterClose
          (if pdf_files_processed s = [] then s
           else if open_raises env then emit (OpenOutput out) s
           else emit WriterWrite (emit (OpenOutput out) s)))"
  by (simp add: merge_pdfs_def sorted_input_eq processing_order_eq Let_def)

lemma outcomes_merge_pdfs:
  "outcomes (final (merge_pdfs fs env h ip out srt)) =
     map (\<lambda>p. (p, outcome_of fs p)) (processing_order h ip srt)"
  by (simp add: final_merge_pdfs Let_def outcomes_merge_loop processing_order_eq)

lemma merger_merge_pdfs:
  "merger (final (merge_pdfs fs env h ip out srt)) =
     concat (map (contribution fs) (processing_order h ip srt))"
  by (simp add: final_merge_pdfs Let_def merger_merge_loop processing_order_eq)

lemma at_output_merge_pdfs:
  "at_output (merge_pdfs fs env h ip out srt) =
     (if \<not> any_merged fs (processing_order h ip srt) \<or> open_raises env then Untouched
      else if write_raises env then Truncated
      else Written (concat (map (contribution fs) (processing_order h ip srt))))"
  by (simp add: merge_pdfs_def sorted_input_eq processing_order_eq Let_def processed_empty_iff
      merger_merge_loop)

lemma trace_merge_pdfs:
  "trace (final (merge_pdfs fs env h ip out srt)) =
     WriterNew # concat (map (file_events fs) (processing_order h ip srt))
       @ (if \<not> any_merged fs (processing_order h ip srt) then []
          else if open_raises env then [OpenOutput out]
          else [OpenOutput out, WriterWrite])
       @ (if sort_raises h ip srt then [] else [WriterClose])"
  by (simp add: final_merge_pdfs Let_def processed_empty_iff trace_merge_loop
      processing_order_eq)


lemma set_file_events:
  "set (file_events fs p) \<subseteq> {Decrypt p '''', Append p}"
  by (auto simp: file_events_eq split: option.splits entry.splits sum.splits if_splits)

lemma no_writer_event:
  "WriterClose \<notin> set (concat (map (file_events fs) paths))"
  "WriterNew \<notin> set (concat (map (file_events fs) paths))"
  "OpenOutput out \<notin> set (concat (map (file_events fs) paths))"
  "WriterWrite \<notin> set (concat (map (file_events fs) paths))"
  using set_file_events [of fs] by auto

lemma filter_no_event:
  "e \<notin> set xs \<Longrightarrow> filter (\<lambda>x. x = e) xs = []"
  by (induction xs) auto

lemma is_merged_iff: "is_merged oc \<longleftrightarrow> (\<exists>n. oc = Merged n)"
  by (cases oc) (simp_all add: is_merged_def)

lemma any_merged_outcomes:
  "any_merged fs (processing_order h ip srt) \<longleftrightarrow>
     (\<exists>p n. (p, Merged n) \<in> set (outcomes (final (merge_pdfs fs env h ip out srt))))"
  unfolding outcomes_merge_pdfs any_merged_def list_ex_iff is_merged_iff
  by (auto simp: image_iff) metis

lemma any_merged_set:
  "set xs = set ys \<Longrightarrow> any_merged fs xs = any_merged fs ys"
  by (simp add: any_merged_def list_ex_iff)

lemma set_processing_order:
  "\<not> sort_raises h ip srt \<Longrightarrow> set (processing_order h ip srt) = set (h ip)"
  by (simp add: processing_order_eq set_natural_sorted)


lemma sort_raises_removeAll:
  "\<not> sort_raises h ip srt \<Longrightarrow> \<not> sort_raises (h(ip := removeAll p (h ip))) ip srt"
  by (auto simp: sort_raises_def list_ex_iff)

lemma processing_order_removeAll:
  "\<not> sort_raises h ip srt \<Longrightarrow>
   processing_order (h(ip := removeAll p (h ip))) ip srt = removeAll p (processing_order h ip srt)"
  using sort_raises_removeAll [of h ip srt p]
  by (simp add: processing_order_eq natural_sorted_removeAll)

lemma contribution_removeAll:
  "contribution fs p = [] \<Longrightarrow>
   concat (map (contribution fs) (removeAll p xs)) = concat (map (contribution fs) xs)"
  by (induction xs) auto

lemma decrypt_events:
  "Decrypt p pw \<in> set (concat (map (file_events fs) paths)) \<Longrightarrow> pw = ''''"
  using set_file_events [of fs] by auto



lemma scan_entries_eq:
  "scan_entries dp names acc =
     acc @ map (os_path_join dp) (filter (\<lambda>n. endswith (lower n) ''.pdf'') names)"
  by (induction names arbitrary: acc) simp_all

lemma outcome_differs_iff:
  "outcome_of fs p \<noteq> classify_spec fs p \<longleftrightarrow>
     (\<exists>rd. fs p = Some (Document rd) \<and> endswith (lower p) ''.pdf''
        \<and> is_encrypted rd \<and> decrypt_empty rd = NotDecrypted)"
proof (cases "fs p")
  case None
  then show ?thesis by (simp add: outcome_of_eq classify_spec_def)
next
  case (Some f)
  show ?thesis
  proof (cases f)
    case CannotOpen
    with Some show ?thesis by (simp add: outcome_of_eq classify_spec_def)
  next
    case (CannotParse e)
    with Some show ?thesis by (simp add: outcome_of_eq classify_spec_def)
  next
    case (Document rd)
    show ?thesis
    proof (cases "decrypt_empty rd")
      case DecryptRaises
      with Some Document show ?thesis by (simp add: outcome_of_eq classify_spec_def)
    next
      case Decrypted
      with Some Document show ?thesis by (simp add: outcome_of_eq classify_spec_def)
    next
      case NotDecrypted
      with Some Document show ?thesis
        by (simp add: outcome_of_eq classify_spec_def split: sum.splits option.splits)
    qed
  qed
qed

lemma never_undecryptable:
  "fs p = Some (Document rd) \<Longrightarrow> decrypt_empty rd \<noteq> DecryptRaises \<Longrightarrow>
   outcome_of fs p \<noteq> SkippedEncryptedUndecryptable"
  by (simp add: outcome_of_eq split: sum.splits option.splits)





subsection \<open>The pages of the output\<close>

text \<open>
  Claim C1. The pages the writer holds at the end, which are the pages of the output
  when it is written, are the pages of the candidates whose outcome is Merged, each
  document's pages in their own order, the documents in the order of processing; that
  order is the input order, or its natural sort when sorting is on (a run that line 32
  leaves by an exception has processed no candidate). A skipped candidate adds nothing.
\<close>

theorem merged_page_sequence:
  "merger (final (merge_pdfs fs env h ip out srt)) =
     concat (map (pages_of fs)
       (map fst (filter (\<lambda>po. is_merged (snd po))
          (outcomes (final (merge_pdfs fs env h ip out srt))))))
   \<and> map fst (outcomes (final (merge_pdfs fs env h ip out srt))) =
       (case completed (merge_pdfs fs env h ip out srt) of
          Raised e \<Rightarrow> []
        | Returned b \<Rightarrow> if srt then natural_sorted (h ip) else h ip)
   \<and> (completed (merge_pdfs fs env h ip out srt) = Returned True \<longrightarrow>
        at_output (merge_pdfs fs env h ip out srt)
          = Written (merger (final (merge_pdfs fs env h ip out srt))))
   \<and> (\<forall>ps. at_output (merge_pdfs fs env h ip out srt) = Written ps \<longrightarrow>
        ps = merger (final (merge_pdfs fs env h ip out srt)))"
proof -
  have f: "map fst (filter (\<lambda>po. is_merged (snd po)) (map (\<lambda>p. (p, outcome_of fs p)) xs))
      = filter (\<lambda>p. is_merged (outcome_of fs p)) xs" for xs
    by (induction xs) simp_all
  show ?thesis
    by (simp add: outcomes_merge_pdfs merger_merge_pdfs concat_contribution f
        completed_merge_pdfs at_output_merge_pdfs comp_def processing_order_eq)
qed

text \<open>
  The sorted run on the demo files: the three numbered files are merged in the order
  1, 2, 10, and the five skipped candidates between and around them add nothing.
\<close>

theorem merged_page_sequence_witness:
  "completed (merge_pdfs demo_fs ok_env demo_heap 0 ''out.pdf'' True) = Returned True
   \<and> merger (final (merge_pdfs demo_fs ok_env demo_heap 0 ''out.pdf'' True)) = [1, 2, 3, 4, 5]
   \<and> at_output (merge_pdfs demo_fs ok_env demo_heap 0 ''out.pdf'' True)
       = Written [1, 2, 3, 4, 5]"
proof -
  have r: "completed (merge_pdfs demo_fs ok_env demo_heap 0 ''out.pdf'' True) = Returned True"
    by code_simp
  have e: "concat (map (pages_of demo_fs)
       (map fst (filter (\<lambda>po. is_merged (snd po))
          (outcomes (final (merge_pdfs demo_fs ok_env demo_heap 0 ''out.pdf'' True))))))
      = [1, 2, 3, 4, 5]"
    by code_simp
  show ?thesis
    using r e merged_page_sequence [of demo_fs ok_env demo_heap 0 "''out.pdf''" True]
    by simp
qed

subsection \<open>When the run succeeds\<close>



subsection \<open>A failed write\<close>

text \<open>
  Claim C10. When a candidate was merged, the output path is opened for writing before
  the writer serialises; if the write then raises, the run returns false and leaves the
  created or emptied file behind. When no candidate was merged the output path is not
  touched.
\<close>

theorem write_failure_not_atomic:
  "((\<exists>p n. (p, Merged n) \<in> set (outcomes (final (merge_pdfs fs env h ip out srt))))
      \<and> \<not> open_raises env \<and> write_raises env \<longrightarrow>
      completed (merge_pdfs fs env h ip out srt) = Returned False
      \<and> at_output (merge_pdfs fs env h ip out srt) = Truncated
      \<and> (\<exists>pre post. trace (final (merge_pdfs fs env h ip out srt))
            = pre @ [OpenOutput out, WriterWrite] @ post))
   \<and> ((\<nexists>p n. (p, Merged n) \<in> set (outcomes (final (merge_pdfs fs env h ip out srt)))) \<longrightarrow>
        at_output (merge_pdfs fs env h ip out srt) = Untouched)"
proof -
  let ?r = "merge_pdfs fs env h ip out srt"
  let ?ps = "processing_order h ip srt"
  note am = any_merged_outcomes [of fs h ip srt env out, symmetric]
  have a: "completed ?r = Returned False \<and> at_output ?r = Truncated
      \<and> (\<exists>pre post. trace (final ?r) = pre @ [OpenOutput out, WriterWrite] @ post)"
    if "(\<exists>p n. (p, Merged n) \<in> set (outcomes (final ?r)))
      \<and> \<not> open_raises env \<and> write_raises env"
  proof -
    from that have m: "any_merged fs ?ps" and o: "\<not> open_raises env" and w: "write_raises env"
      unfolding am by simp_all
    have nr: "\<not> sort_raises h ip srt" using m by (auto simp: processing_order_eq)
    have "trace (final ?r) =
        (WriterNew # concat (map (file_events fs) ?ps)) @ [OpenOutput out, WriterWrite]
          @ [WriterClose]"
      using m o nr by (simp add: trace_merge_pdfs)
    then have "\<exists>pre post. trace (final ?r) = pre @ [OpenOutput out, WriterWrite] @ post"
      by blast
    then show ?thesis using m o w nr
      by (simp add: completed_merge_pdfs at_output_merge_pdfs)
  qed
  have b: "at_output ?r = Untouched"
    if "\<nexists>p n. (p, Merged n) \<in> set (outcomes (final ?r))"
    using that unfolding am by (simp add: at_output_merge_pdfs)
  show ?thesis using a b by blast
qed

theorem write_failure_not_atomic_witness:
  "completed (merge_pdfs demo_fs bad_env demo_heap 0 ''out.pdf'' False) = Returned False
   \<and> at_output (merge_pdfs demo_fs bad_env demo_heap 0 ''out.pdf'' False) = Truncated
   \<and> at_output (merge_pdfs demo_fs bad_env skipped_heap 0 ''out.pdf'' False) = Untouched"
proof -
  have m: "(''file1.pdf'', Merged 2)
      \<in> set (outcomes (final (merge_pdfs demo_fs bad_env demo_heap 0 ''out.pdf'' False)))"
    by code_simp
  have e: "\<not> open_raises bad_env" "write_raises bad_env"
    by (simp_all add: bad_env_def)
  have o: "outcomes (final (merge_pdfs demo_fs bad_env skipped_heap 0 ''out.pdf'' False))
      = [(''missing.pdf'', SkippedNotFound), (''notes.txt'', SkippedNotPdf),
         (''locked.pdf'', SkippedUnexpectedError PdfReadError)]"
    by code_simp
  have n: "\<nexists>p n. (p, Merged n)
      \<in> set (outcomes (final (merge_pdfs demo_fs bad_env skipped_heap 0 ''out.pdf'' False)))"
    unfolding o by simp
  show ?thesis
    using m e n
      write_failure_not_atomic [of demo_fs bad_env demo_heap 0 "''out.pdf''" False]
      write_failure_not_atomic [of demo_fs bad_env skipped_heap 0 "''out.pdf''" False]
    by blast
qed

subsection \<open>The caller's list is sorted in place\<close>



subsection \<open>Finding the PDFs of a directory\<close>

text \<open>
  Claim C7. For a path that is not a directory \<^const>\<open>find_pdfs_in_directory\<close> exits
  with code 1 (the spec's DirectoryNotFound). For a directory it returns, in the order
  of the listing, the entries whose lower-cased name ends in \<^verbatim>\<open>.pdf\<close>, each joined to
  the directory path; the result depends on the listing of that directory alone, so
  nothing below it is read.
\<close>

theorem find_pdfs_listing:
  "find_pdfs_in_directory d dp =
     (case d dp of
        None \<Rightarrow> Inl (SystemExit 1)
      | Some names \<Rightarrow>
          Inr (map (os_path_join dp) (filter (\<lambda>n. endswith (lower n) ''.pdf'') names)))
   \<and> (d2 dp = d dp \<longrightarrow> find_pdfs_in_directory d2 dp = find_pdfs_in_directory d dp)"
  by (simp add: find_pdfs_in_directory_def scan_entries_eq split: option.splits)

theorem find_pdfs_listing_witness:
  "find_pdfs_in_directory demo_dirs ''docs'' = Inr [''docs/b.PDF'', ''docs/a.pdf'']
   \<and> find_pdfs_in_directory demo_dirs ''nowhere'' = Inl (SystemExit 1)
   \<and> find_pdfs_in_directory (demo_dirs(''docs/sub'' := None)) ''docs''
       = find_pdfs_in_directory demo_dirs ''docs''"
proof -
  have l: "demo_dirs ''docs'' = Some [''b.PDF'', ''sub'', ''a.pdf'', ''notes.txt'']"
    "demo_dirs ''nowhere'' = None"
    "(demo_dirs(''docs/sub'' := None)) ''docs'' = demo_dirs ''docs''"
    by (simp_all add: demo_dirs_def)
  have f: "map (os_path_join ''docs'')
      (filter (\<lambda>n. endswith (lower n) ''.pdf'') [''b.PDF'', ''sub'', ''a.pdf'', ''notes.txt''])
      = [''docs/b.PDF'', ''docs/a.pdf'']"
    by code_simp
  show ?thesis
    using l f
      find_pdfs_listing [of demo_dirs "''docs''" "demo_dirs(''docs/sub'' := None)"]
      find_pdfs_listing [of demo_dirs "''nowhere''" demo_dirs]
    by simp
qed

subsection \<open>The writer is not released when the sort raises\<close>

text \<open>
  Claim C6. The writer is created once, as the first call of every run. A run that
  returns, with success, with nothing merged, with an output that cannot be opened or
  with a failed write, closes the writer once, as its last call. A run does not return
  exactly when sorting is on and the key of some path raises: the exception leaves
  \<^const>\<open>merge_pdfs\<close> at line 32, the writer has been created and is never closed.
\<close>

theorem writer_closed_once:
  "length (filter (\<lambda>e. e = WriterClose) (trace (final (merge_pdfs fs env h ip out srt))))
     = (case completed (merge_pdfs fs env h ip out srt) of Raised e \<Rightarrow> 0 | Returned b \<Rightarrow> 1)
   \<and> length (filter (\<lambda>e. e = WriterNew) (trace (final (merge_pdfs fs env h ip out srt)))) = 1
   \<and> hd (trace (final (merge_pdfs fs env h ip out srt))) = WriterNew
   \<and> (\<forall>b. completed (merge_pdfs fs env h ip out srt) = Returned b \<longrightarrow>
        last (trace (final (merge_pdfs fs env h ip out srt))) = WriterClose)
   \<and> (completed (merge_pdfs fs env h ip out srt) = Raised ValueError \<longleftrightarrow>
        srt \<and> list_ex key_fails (h ip))
   \<and> (srt \<and> list_ex key_fails (h ip) \<longrightarrow>
        trace (final (merge_pdfs fs env h ip out srt)) = [WriterNew])"
proof (cases "sort_raises h ip srt")
  case True
  then have "srt \<and> list_ex key_fails (h ip)" by (simp add: sort_raises_def)
  then show ?thesis using True by (simp add: merge_pdfs_raised)
next
  case False
  let ?ps = "processing_order h ip srt"
  have k: "\<not> (srt \<and> list_ex key_fails (h ip))" using False by (simp add: sort_raises_def)
  have 1: "filter (\<lambda>e. e = WriterClose) (concat (map (file_events fs) ?ps)) = []"
    by (rule filter_no_event) (rule no_writer_event(1))
  have 2: "filter (\<lambda>e. e = WriterNew) (concat (map (file_events fs) ?ps)) = []"
    by (rule filter_no_event) (rule no_writer_event(2))
  let ?r = "merge_pdfs fs env h ip out srt"
  let ?w = "if \<not> any_merged fs ?ps then []
            else if open_raises env then [OpenOutput out]
            else [OpenOutput out, WriterWrite]"
  have t: "trace (final ?r) =
      WriterNew # concat (map (file_events fs) ?ps) @ ?w @ [WriterClose]"
    using False by (simp add: trace_merge_pdfs)
  have cl: "length (filter (\<lambda>e. e = WriterClose) (trace (final ?r))) = 1"
    unfolding t by (simp add: 1)
  have nw: "length (filter (\<lambda>e. e = WriterNew) (trace (final ?r))) = 1"
    unfolding t by (simp add: 2)
  have hd: "hd (trace (final ?r)) = WriterNew" unfolding t by simp
  have ls: "last (trace (final ?r)) = WriterClose" unfolding t by simp
  obtain b where cb: "completed ?r = Returned b"
    using False by (simp add: completed_merge_pdfs)
  have cc: "length (filter (\<lambda>e. e = WriterClose) (trace (final ?r)))
      = (case completed ?r of Raised e \<Rightarrow> 0 | Returned b \<Rightarrow> 1)"
    using cl cb by simp
  have lb: "\<forall>b. completed ?r = Returned b \<longrightarrow> last (trace (final ?r)) = WriterClose"
    using ls by simp
  have rc: "completed ?r = Raised ValueError \<longleftrightarrow> srt \<and> list_ex key_fails (h ip)"
    using cb k by simp
  have lc: "srt \<and> list_ex key_fails (h ip) \<longrightarrow> trace (final ?r) = [WriterNew]"
    using k by blast
  show ?thesis using cc nw hd lb rc lc by blast
qed

text \<open>
  The path \<^verbatim>\<open>10\<close> with a superscript two and the path of 4301 digits leave the writer
  open; the three ways to return close it.
\<close>

theorem writer_closed_once_witness:
  "completed (merge_pdfs demo_fs ok_env raising_heap 0 ''out.pdf'' True) = Raised ValueError
   \<and> trace (final (merge_pdfs demo_fs ok_env raising_heap 0 ''out.pdf'' True)) = [WriterNew]
   \<and> completed (merge_pdfs demo_fs ok_env long_heap 0 ''out.pdf'' True) = Raised ValueError
   \<and> trace (final (merge_pdfs demo_fs ok_env long_heap 0 ''out.pdf'' True)) = [WriterNew]
   \<and> completed (merge_pdfs demo_fs ok_env demo_heap 0 ''out.pdf'' True) = Returned True
   \<and> length (filter (\<lambda>e. e = WriterClose)
        (trace (final (merge_pdfs demo_fs ok_env demo_heap 0 ''out.pdf'' True)))) = 1
   \<and> completed (merge_pdfs demo_fs ok_env skipped_heap 0 ''out.pdf'' True) = Returned False
   \<and> length (filter (\<lambda>e. e = WriterClose)
        (trace (final (merge_pdfs demo_fs ok_env skipped_heap 0 ''out.pdf'' True)))) = 1
   \<and> at_output (merge_pdfs demo_fs bad_env demo_heap 0 ''out.pdf'' True) = Truncated
   \<and> length (filter (\<lambda>e. e = WriterClose)
        (trace (final (merge_pdfs demo_fs bad_env demo_heap 0 ''out.pdf'' True)))) = 1"
proof -
  have k1: "list_ex key_fails (raising_heap 0)" by code_simp
  have k2: "list_ex key_fails (long_heap 0)" by (simp add: long_heap_def key_fails_long)
  have a: "completed (merge_pdfs demo_fs ok_env demo_heap 0 ''out.pdf'' True) = Returned True"
    by code_simp
  have b: "completed (merge_pdfs demo_fs ok_env skipped_heap 0 ''out.pdf'' True)
      = Returned False"
    by code_simp
  have c: "at_output (merge_pdfs demo_fs bad_env demo_heap 0 ''out.pdf'' True) = Truncated"
    by code_simp
  have c': "completed (merge_pdfs demo_fs bad_env demo_heap 0 ''out.pdf'' True)
      = Returned False"
    by code_simp
  have 1: "completed (merge_pdfs demo_fs ok_env raising_heap 0 ''out.pdf'' True)
        = Raised ValueError
      \<and> trace (final (merge_pdfs demo_fs ok_env raising_heap 0 ''out.pdf'' True)) = [WriterNew]"
    using k1 writer_closed_once [of demo_fs ok_env raising_heap 0 "''out.pdf''" True] by blast
  have 2: "completed (merge_pdfs demo_fs ok_env long_heap 0 ''out.pdf'' True)
        = Raised ValueError
      \<and> trace (final (merge_pdfs demo_fs ok_env long_heap 0 ''out.pdf'' True)) = [WriterNew]"
    using k2 writer_closed_once [of demo_fs ok_env long_heap 0 "''out.pdf''" True] by blast
  have 3: "length (filter (\<lambda>e. e = WriterClose)
        (trace (final (merge_pdfs demo_fs ok_env demo_heap 0 ''out.pdf'' True)))) = 1"
    using a writer_closed_once [of demo_fs ok_env demo_heap 0 "''out.pdf''" True] by simp
  have 4: "length (filter (\<lambda>e. e = WriterClose)
        (trace (final (merge_pdfs demo_fs ok_env skipped_heap 0 ''out.pdf'' True)))) = 1"
    using b writer_closed_once [of demo_fs ok_env skipped_heap 0 "''out.pdf''" True] by simp
  have 5: "length (filter (\<lambda>e. e = WriterClose)
        (trace (final (merge_pdfs demo_fs bad_env demo_heap 0 ''out.pdf'' True)))) = 1"
    using c' writer_closed_once [of demo_fs bad_env demo_heap 0 "''out.pdf''" True] by simp
  show ?thesis using 1 2 3 4 5 a b c by blast
qed

subsection \<open>The natural sort\<close>

text \<open>
  Claim C3. With sorting on, the run raises at line 32 exactly when the key of some path
  raises, and then no candidate is processed; otherwise the candidates are processed in
  the order \<^const>\<open>natural_sorted\<close> gives: a permutation of the input, sorted by the key
  (no element's key is smaller than an earlier one's), elements of equal key in their
  input order. The key of a path is made run by run from the split of the path into
  alternating runs without digits and runs of digits. A digit run of at most 4300 digits
  gives its number and a longer one raises; a run without digits gives its lower-cased
  text, and raises when it is made of superscript digits only. Numbers compare by
  value, texts by their lower-cased characters, and no comparison of two keys ever meets
  a number against a text. The three files of the spec's example come out as file1,
  file2, file10; the keys of the path \<^verbatim>\<open>10\<close> with a superscript two and of the path of
  4301 digits raise.
\<close>

theorem natural_sort_processing:
  "(completed (merge_pdfs fs env h ip out True) = Raised ValueError \<longleftrightarrow>
      list_ex key_fails (h ip))
   \<and> (list_ex key_fails (h ip) \<longrightarrow>
        outcomes (final (merge_pdfs fs env h ip out True)) = []
        \<and> at_output (merge_pdfs fs env h ip out True) = Untouched)
   \<and> (\<not> list_ex key_fails (h ip) \<longrightarrow>
        map fst (outcomes (final (merge_pdfs fs env h ip out True))) = natural_sorted (h ip))
   \<and> mset (natural_sorted xs) = mset xs
   \<and> sorted_wrt (\<lambda>a b. \<not> key_lt b a) (natural_sorted xs)
   \<and> filter (\<lambda>p. key_of p = key_of q) (natural_sorted xs)
       = filter (\<lambda>p. key_of p = key_of q) xs
   \<and> (natural_sort_key p = Inr k \<longleftrightarrow> map key_of_run (re_split p) = map Inr k)
   \<and> (natural_sort_key p = Inl ValueError \<longleftrightarrow> key_fails p)
   \<and> (key_fails p \<longleftrightarrow>
        (\<exists>t\<in>set (re_split p).
            (all_digits t \<and> max_str_digits < length t) \<or> (no_digits t \<and> isdigit t)))
   \<and> concat (re_split p) = p \<and> is_run_split (re_split p)
   \<and> (all_digits d \<longrightarrow>
        key_of_run d
          = (if length d \<le> max_str_digits then Inr (Num (int_of d)) else Inl ValueError))
   \<and> (no_digits t \<longrightarrow>
        key_of_run t = (if isdigit t then Inl ValueError else Inr (Txt (lower t))))
   \<and> tok_lt (Num m) (Num n) = Some (m < n)
   \<and> tok_lt (Txt u) (Txt v) = Some (u < v)
   \<and> list_lt (key_of a) (key_of b) \<noteq> None
   \<and> natural_sorted [''file10.pdf'', ''file2.pdf'', ''file1.pdf'']
       = [''file1.pdf'', ''file2.pdf'', ''file10.pdf'']
   \<and> natural_sort_key squared = Inl ValueError
   \<and> natural_sort_key long_digits = Inl ValueError"
proof -
  let ?r = "merge_pdfs fs env h ip out True"
  have ex: "natural_sorted [''file10.pdf'', ''file2.pdf'', ''file1.pdf'']
       = [''file1.pdf'', ''file2.pdf'', ''file10.pdf'']"
    by code_simp
  have c1: "completed ?r = Raised ValueError \<longleftrightarrow> list_ex key_fails (h ip)"
    by (simp add: completed_merge_pdfs sort_raises_def)
  have c2: "list_ex key_fails (h ip) \<longrightarrow> outcomes (final ?r) = [] \<and> at_output ?r = Untouched"
    by (simp add: merge_pdfs_raised sort_raises_def)
  have c3: "\<not> list_ex key_fails (h ip) \<longrightarrow> map fst (outcomes (final ?r)) = natural_sorted (h ip)"
    by (simp add: outcomes_merge_pdfs processing_order_eq sort_raises_def comp_def)
  have split_kinds: "all_digits t \<or> no_digits t" if "t \<in> set rs" "is_run_split rs" for t rs
    using that(2) that(1) by (induction rs rule: is_run_split.induct) auto
  have c4: "key_fails p \<longleftrightarrow>
        (\<exists>t\<in>set (re_split p).
            (all_digits t \<and> max_str_digits < length t) \<or> (no_digits t \<and> isdigit t))"
  proof
    assume "key_fails p"
    then obtain t where t: "t \<in> set (re_split p)" and f: "run_fails t"
      by (auto simp: key_fails_def list_ex_iff)
    from split_kinds [OF t is_run_split_re_split] show
      "\<exists>t\<in>set (re_split p).
          (all_digits t \<and> max_str_digits < length t) \<or> (no_digits t \<and> isdigit t)"
      using t f run_fails_digits [of t] run_fails_text [of t] by blast
  next
    assume "\<exists>t\<in>set (re_split p).
        (all_digits t \<and> max_str_digits < length t) \<or> (no_digits t \<and> isdigit t)"
    then obtain t where t: "t \<in> set (re_split p)"
      and f: "(all_digits t \<and> max_str_digits < length t) \<or> (no_digits t \<and> isdigit t)"
      by blast
    have "run_fails t" using f run_fails_digits [of t] run_fails_text [of t] by blast
    then show "key_fails p" using t by (auto simp: key_fails_def list_ex_iff)
  qed
  have c5: "all_digits d \<longrightarrow>
        key_of_run d
          = (if length d \<le> max_str_digits then Inr (Num (int_of d)) else Inl ValueError)"
  proof
    assume d: "all_digits d"
    show "key_of_run d
          = (if length d \<le> max_str_digits then Inr (Num (int_of d)) else Inl ValueError)"
      using isdigit_all_digits [OF d] d
      by (simp add: key_of_run_def py_int_def all_digits_def)
  qed
  have c6: "no_digits t \<longrightarrow>
        key_of_run t = (if isdigit t then Inl ValueError else Inr (Txt (lower t)))"
  proof
    assume n: "no_digits t"
    show "key_of_run t = (if isdigit t then Inl ValueError else Inr (Txt (lower t)))"
    proof (cases "isdigit t")
      case True
      then have "run_fails t" using run_fails_text [OF n] by simp
      then have "isl (key_of_run t)" by (simp add: isl_key_of_run)
      then show ?thesis using True by (cases "key_of_run t") (simp_all add: pyerr_eq)
    next
      case False
      then show ?thesis by (simp add: key_of_run_def)
    qed
  qed
  have c7: "natural_sort_key squared = Inl ValueError" by code_simp
  have c8: "natural_sort_key long_digits = Inl ValueError"
    using key_fails_long by (simp add: natural_sort_key_fails)
  have c9: "tok_lt (Num m) (Num n) = Some (m < n)" "tok_lt (Txt u) (Txt v) = Some (u < v)"
    by simp_all
  show ?thesis
    by (intro conjI c1 c2 c3 c4 c5 c6 c7 c8 c9 ex mset_natural_sorted sorted_natural_sorted
        stable_natural_sorted natural_sort_key_runs natural_sort_key_fails concat_re_split
        is_run_split_re_split list_lt_key_total)
qed

theorem natural_sort_processing_witness:
  "completed (merge_pdfs demo_fs ok_env raising_heap 0 ''out.pdf'' True) = Raised ValueError
   \<and> outcomes (final (merge_pdfs demo_fs ok_env raising_heap 0 ''out.pdf'' True)) = []
   \<and> map fst (outcomes (final (merge_pdfs demo_fs ok_env demo_heap 0 ''out.pdf'' True)))
       = [''broken.pdf'', ''empty.pdf'', ''file1.pdf'', ''file2.pdf'', ''file10.pdf'',
          ''locked.pdf'', ''missing.pdf'', ''notes.txt'']
   \<and> key_of_run ''10'' = Inr (Num 10)
   \<and> key_of_run ''File'' = Inr (Txt ''file'')
   \<and> key_of_run [CHR 0xB2] = Inl ValueError
   \<and> natural_sort_key ''File10.PDF'' = Inr [Txt ''file'', Num 10, Txt ''.pdf'']"
proof -
  have k1: "list_ex key_fails (raising_heap 0)" by code_simp
  have k2: "\<not> list_ex key_fails (demo_heap 0)" by code_simp
  have d: "all_digits ''10''" "length ''10'' \<le> max_str_digits" "int_of ''10'' = 10"
    by code_simp+
  have t: "no_digits ''File''" "\<not> isdigit ''File''" "lower ''File'' = ''file''"
    by code_simp+
  have s: "no_digits [CHR 0xB2]" "isdigit [CHR 0xB2]" by code_simp+
  have ns: "natural_sorted (demo_heap 0)
     = [''broken.pdf'', ''empty.pdf'', ''file1.pdf'', ''file2.pdf'', ''file10.pdf'',
        ''locked.pdf'', ''missing.pdf'', ''notes.txt'']"
    by code_simp
  have k: "map key_of_run (re_split ''File10.PDF'')
      = map Inr [Txt ''file'', Num 10, Txt ''.pdf'']"
    by code_simp
  note th = natural_sort_processing [where fs = demo_fs and env = ok_env and ip = 0
      and out = "''out.pdf''" and p = "''File10.PDF''"
      and k = "[Txt ''file'', Num 10, Txt ''.pdf'']"]
  have 1: "completed (merge_pdfs demo_fs ok_env raising_heap 0 ''out.pdf'' True)
        = Raised ValueError
      \<and> outcomes (final (merge_pdfs demo_fs ok_env raising_heap 0 ''out.pdf'' True)) = []"
    using k1 th [where h = raising_heap] by blast
  have 2: "map fst (outcomes (final (merge_pdfs demo_fs ok_env demo_heap 0 ''out.pdf'' True)))
       = natural_sorted (demo_heap 0)"
    using k2 th [where h = demo_heap] by blast
  have 3: "key_of_run ''10'' = Inr (Num 10)"
    using d th [where h = demo_heap and d = "''10''"] by simp
  have 4: "key_of_run ''File'' = Inr (Txt ''file'')"
    using t th [where h = demo_heap and t = "''File''"] by simp
  have 5: "key_of_run [CHR 0xB2] = Inl ValueError"
    using s th [where h = demo_heap and t = "[CHR 0xB2]"] by simp
  have 6: "natural_sort_key ''File10.PDF'' = Inr [Txt ''file'', Num 10, Txt ''.pdf'']"
    using k th [where h = demo_heap] by blast
  show ?thesis using 1 2 3 4 5 6 unfolding ns by blast
qed

subsection \<open>Encrypted documents\<close>

text \<open>
  Claim C4. Every decryption call of a run passes the empty password, and a processed
  candidate that the library reports as encrypted gets such a call. Its outcome is
  SkippedEncryptedUndecryptable exactly when the call raises. When the call returns
  that the password is wrong, the script goes on to count the pages: the library raises
  a \<^verbatim>\<open>PdfReadError\<close> there and the outcome is that of the handler of line 70, not
  SkippedEncryptedUndecryptable. In both cases the writer holds the same pages as in the
  run without that path.
\<close>

theorem decrypt_empty_password_only:
  "(\<forall>q pw. Decrypt q pw \<in> set (trace (final (merge_pdfs fs env h ip out srt))) \<longrightarrow> pw = '''')
   \<and> ((p, oc) \<in> set (outcomes (final (merge_pdfs fs env h ip out srt)))
        \<and> fs p = Some (Document rd) \<and> endswith (lower p) ''.pdf'' \<and> is_encrypted rd \<longrightarrow>
        Decrypt p '''' \<in> set (trace (final (merge_pdfs fs env h ip out srt)))
        \<and> (oc = SkippedEncryptedUndecryptable \<longleftrightarrow> decrypt_empty rd = DecryptRaises)
        \<and> (decrypt_empty rd = NotDecrypted \<and> pages rd = Inl PdfReadError \<longrightarrow>
             oc = SkippedUnexpectedError PdfReadError
             \<and> oc \<noteq> classify_spec fs p
             \<and> classify_spec fs p = SkippedEncryptedUndecryptable)
        \<and> (decrypt_empty rd = DecryptRaises
              \<or> (decrypt_empty rd = NotDecrypted \<and> pages rd = Inl PdfReadError) \<longrightarrow>
             merger (final (merge_pdfs fs env h ip out srt))
               = merger (final (merge_pdfs fs env (h(ip := removeAll p (h ip))) ip out srt))))"
proof -
  let ?r = "merge_pdfs fs env h ip out srt"
  let ?ps = "processing_order h ip srt"
  have a: "pw = ''''" if "Decrypt q pw \<in> set (trace (final ?r))" for q pw
    using that decrypt_events [of q pw fs ?ps]
    by (auto simp: trace_merge_pdfs split: if_splits)
  have b: "Decrypt p '''' \<in> set (trace (final ?r))
        \<and> (oc = SkippedEncryptedUndecryptable \<longleftrightarrow> decrypt_empty rd = DecryptRaises)
        \<and> (decrypt_empty rd = NotDecrypted \<and> pages rd = Inl PdfReadError \<longrightarrow>
             oc = SkippedUnexpectedError PdfReadError
             \<and> oc \<noteq> classify_spec fs p
             \<and> classify_spec fs p = SkippedEncryptedUndecryptable)
        \<and> (decrypt_empty rd = DecryptRaises
              \<or> (decrypt_empty rd = NotDecrypted \<and> pages rd = Inl PdfReadError) \<longrightarrow>
             merger (final ?r)
               = merger (final (merge_pdfs fs env (h(ip := removeAll p (h ip))) ip out srt)))"
    if po: "(p, oc) \<in> set (outcomes (final ?r))" and f: "fs p = Some (Document rd)"
      and s: "endswith (lower p) ''.pdf''" and e: "is_encrypted rd"
  proof -
    from po have mem: "p \<in> set ?ps" and oc: "oc = outcome_of fs p"
      by (auto simp: outcomes_merge_pdfs)
    have nr: "\<not> sort_raises h ip srt" using mem by (auto simp: processing_order_eq)
    have "Decrypt p '''' \<in> set (file_events fs p)"
      using f s e by (simp add: file_events_eq)
    with mem have "Decrypt p '''' \<in> set (concat (map (file_events fs) ?ps))" by auto
    then have 1: "Decrypt p '''' \<in> set (trace (final ?r))" by (simp add: trace_merge_pdfs)
    have 2: "oc = SkippedEncryptedUndecryptable \<longleftrightarrow> decrypt_empty rd = DecryptRaises"
      unfolding oc using f s e
      by (simp add: outcome_of_eq split: sum.splits option.splits)
    have 3: "oc = SkippedUnexpectedError PdfReadError \<and> oc \<noteq> classify_spec fs p
        \<and> classify_spec fs p = SkippedEncryptedUndecryptable"
      if "decrypt_empty rd = NotDecrypted \<and> pages rd = Inl PdfReadError"
      unfolding oc using that f s e by (simp add: outcome_of_eq classify_spec_def)
    have 4: "merger (final ?r)
          = merger (final (merge_pdfs fs env (h(ip := removeAll p (h ip))) ip out srt))"
      if "decrypt_empty rd = DecryptRaises
              \<or> (decrypt_empty rd = NotDecrypted \<and> pages rd = Inl PdfReadError)"
    proof -
      have "\<not> is_merged (outcome_of fs p)"
        using that f s e by (auto simp: outcome_of_eq is_merged_def)
      then have co: "contribution fs p = []" by (simp add: contribution_eq)
      show ?thesis
        by (simp add: merger_merge_pdfs processing_order_removeAll [OF nr]
            contribution_removeAll [OF co])
    qed
    show ?thesis using 1 2 3 4 by blast
  qed
  show ?thesis using a b by blast
qed

text \<open>
  A document that needs a password is logged by the handler of line 70; one whose
  decryption call raises is logged as undecryptable; neither adds a page.
\<close>

theorem decrypt_empty_password_only_witness:
  "Decrypt ''locked.pdf'' ''''
      \<in> set (trace (final (merge_pdfs demo_fs ok_env encrypted_heap 0 ''out.pdf'' False)))
   \<and> (''locked.pdf'', SkippedUnexpectedError PdfReadError)
        \<in> set (outcomes (final (merge_pdfs demo_fs ok_env encrypted_heap 0 ''out.pdf'' False)))
   \<and> classify_spec demo_fs ''locked.pdf'' = SkippedEncryptedUndecryptable
   \<and> (''unsupported.pdf'', SkippedEncryptedUndecryptable)
        \<in> set (outcomes (final (merge_pdfs demo_fs ok_env encrypted_heap 0 ''out.pdf'' False)))
   \<and> merger (final (merge_pdfs demo_fs ok_env encrypted_heap 0 ''out.pdf'' False))
       = merger (final (merge_pdfs demo_fs ok_env
           (encrypted_heap(0 := removeAll ''locked.pdf'' (encrypted_heap 0))) 0 ''out.pdf''
           False))
   \<and> merger (final (merge_pdfs demo_fs ok_env encrypted_heap 0 ''out.pdf'' False)) = [1, 2, 7]"
proof -
  have a: "(''locked.pdf'', SkippedUnexpectedError PdfReadError)
        \<in> set (outcomes (final (merge_pdfs demo_fs ok_env encrypted_heap 0 ''out.pdf'' False)))"
    by code_simp
  have a': "(''unsupported.pdf'', SkippedEncryptedUndecryptable)
        \<in> set (outcomes (final (merge_pdfs demo_fs ok_env encrypted_heap 0 ''out.pdf'' False)))"
    by code_simp
  have b: "demo_fs ''locked.pdf'' = Some (Document locked_reader)" by code_simp
  have c: "endswith (lower ''locked.pdf'') ''.pdf''" by code_simp
  have d: "is_encrypted locked_reader" "decrypt_empty locked_reader = NotDecrypted"
    "pages locked_reader = Inl PdfReadError"
    by (simp_all add: locked_reader_def)
  have m: "merger (final (merge_pdfs demo_fs ok_env encrypted_heap 0 ''out.pdf'' False))
      = [1, 2, 7]"
    by code_simp
  show ?thesis
    using a a' b c d m
      decrypt_empty_password_only [of demo_fs ok_env encrypted_heap 0 "''out.pdf''" False
        "''locked.pdf''" "SkippedUnexpectedError PdfReadError" locked_reader]
    by blast
qed

subsection \<open>A bad file is skipped and the run goes on\<close>

text \<open>
  Claim C5. A run that returns has given every candidate exactly one outcome, in the
  order of processing, and that outcome depends on the path and its own file alone: a
  missing path is SkippedNotFound whatever its name; an existing path without the
  suffix is SkippedNotPdf whatever it holds; a file that cannot be parsed is skipped
  with the error; an encrypted document whose decryption call raises is
  SkippedEncryptedUndecryptable whatever its pages; a document without pages is
  SkippedEmptyOrCorrupt. The outcome is the one the steps of the spec give, except for
  an encrypted document that the empty password does not open and whose decryption call
  returns: the spec gives SkippedEncryptedUndecryptable and the script the outcome of
  counting its pages. A run with sorting on that meets a path whose key raises gives no
  outcome at all.
\<close>

theorem per_file_recovery:
  "outcomes (final (merge_pdfs fs env h ip out srt))
     = (case completed (merge_pdfs fs env h ip out srt) of
          Raised e \<Rightarrow> []
        | Returned b \<Rightarrow>
            map (\<lambda>p. (p, outcome_of fs p)) (if srt then natural_sorted (h ip) else h ip))
   \<and> (srt \<and> list_ex key_fails (h ip) \<longrightarrow>
        completed (merge_pdfs fs env h ip out srt) = Raised ValueError)
   \<and> (outcome_of fs p \<noteq> classify_spec fs p \<longleftrightarrow>
        (\<exists>rd. fs p = Some (Document rd) \<and> endswith (lower p) ''.pdf''
           \<and> is_encrypted rd \<and> decrypt_empty rd = NotDecrypted))
   \<and> (q \<noteq> p \<longrightarrow> outcome_of (fs(q := x)) p = outcome_of fs p)
   \<and> outcomes (process_file fs p s) = outcomes s @ [(p, outcome_of fs p)]
   \<and> (fs p = None \<longrightarrow> outcome_of fs p = SkippedNotFound)
   \<and> (fs p \<noteq> None \<and> \<not> endswith (lower p) ''.pdf'' \<longrightarrow> outcome_of fs p = SkippedNotPdf)
   \<and> (endswith (lower p) ''.pdf'' \<and> fs p = Some (CannotParse e) \<longrightarrow>
        outcome_of fs p = SkippedUnexpectedError e)
   \<and> (endswith (lower p) ''.pdf'' \<and> fs p = Some (Document rd) \<and> is_encrypted rd
        \<and> decrypt_empty rd = DecryptRaises \<longrightarrow>
        outcome_of fs p = SkippedEncryptedUndecryptable)
   \<and> (endswith (lower p) ''.pdf'' \<and> fs p = Some (Document rd) \<and> is_encrypted rd
        \<and> decrypt_empty rd = NotDecrypted \<and> pages rd = Inl e \<longrightarrow>
        outcome_of fs p = SkippedUnexpectedError e)
   \<and> (endswith (lower p) ''.pdf'' \<and> fs p = Some (Document rd)
        \<and> \<not> (is_encrypted rd \<and> decrypt_empty rd = DecryptRaises) \<and> pages rd = Inr [] \<longrightarrow>
        outcome_of fs p = SkippedEmptyOrCorrupt)"
proof -
  let ?r = "merge_pdfs fs env h ip out srt"
  have a: "outcomes (final ?r)
     = (case completed ?r of
          Raised e \<Rightarrow> []
        | Returned b \<Rightarrow>
            map (\<lambda>p. (p, outcome_of fs p)) (if srt then natural_sorted (h ip) else h ip))"
    by (simp add: outcomes_merge_pdfs completed_merge_pdfs processing_order_eq)
  have b: "srt \<and> list_ex key_fails (h ip) \<longrightarrow> completed ?r = Raised ValueError"
    by (simp add: completed_merge_pdfs sort_raises_def)
  have c: "q \<noteq> p \<longrightarrow> outcome_of (fs(q := x)) p = outcome_of fs p"
    by (simp add: outcome_of_eq)
  have d: "fs p = None \<longrightarrow> outcome_of fs p = SkippedNotFound"
    by (simp add: outcome_of_eq)
  have e: "fs p \<noteq> None \<and> \<not> endswith (lower p) ''.pdf'' \<longrightarrow> outcome_of fs p = SkippedNotPdf"
    by (auto simp: outcome_of_eq)
  have f: "endswith (lower p) ''.pdf'' \<and> fs p = Some (CannotParse e) \<longrightarrow>
        outcome_of fs p = SkippedUnexpectedError e"
    by (simp add: outcome_of_eq)
  have g: "endswith (lower p) ''.pdf'' \<and> fs p = Some (Document rd) \<and> is_encrypted rd
        \<and> decrypt_empty rd = DecryptRaises \<longrightarrow>
        outcome_of fs p = SkippedEncryptedUndecryptable"
    by (simp add: outcome_of_eq)
  have g': "endswith (lower p) ''.pdf'' \<and> fs p = Some (Document rd) \<and> is_encrypted rd
        \<and> decrypt_empty rd = NotDecrypted \<and> pages rd = Inl e \<longrightarrow>
        outcome_of fs p = SkippedUnexpectedError e"
    by (simp add: outcome_of_eq)
  have i: "endswith (lower p) ''.pdf'' \<and> fs p = Some (Document rd)
        \<and> \<not> (is_encrypted rd \<and> decrypt_empty rd = DecryptRaises) \<and> pages rd = Inr [] \<longrightarrow>
        outcome_of fs p = SkippedEmptyOrCorrupt"
    by (auto simp: outcome_of_eq)
  show ?thesis
    by (intro conjI a b c d e f g g' i outcome_differs_iff outcomes_process_file)
qed

theorem per_file_recovery_witness:
  "outcomes (final (merge_pdfs demo_fs ok_env demo_heap 0 ''out.pdf'' False))
     = [(''file10.pdf'', Merged 2), (''notes.txt'', SkippedNotPdf),
        (''file2.pdf'', Merged 1), (''locked.pdf'', SkippedUnexpectedError PdfReadError),
        (''missing.pdf'', SkippedNotFound), (''file1.pdf'', Merged 2),
        (''empty.pdf'', SkippedEmptyOrCorrupt),
        (''broken.pdf'', SkippedUnexpectedError PdfReadError)]
   \<and> classify_spec demo_fs ''locked.pdf'' = SkippedEncryptedUndecryptable
   \<and> outcome_of demo_fs ''locked.pdf'' = SkippedUnexpectedError PdfReadError
   \<and> outcome_of demo_fs ''missing.pdf'' = SkippedNotFound
   \<and> outcome_of demo_fs ''notes.txt'' = SkippedNotPdf
   \<and> outcome_of demo_fs ''unsupported.pdf'' = SkippedEncryptedUndecryptable
   \<and> outcome_of (demo_fs(''broken.pdf'' := None)) ''file1.pdf'' = outcome_of demo_fs ''file1.pdf''
   \<and> completed (merge_pdfs demo_fs ok_env raising_heap 0 ''out.pdf'' True) = Raised ValueError
   \<and> outcomes (final (merge_pdfs demo_fs ok_env raising_heap 0 ''out.pdf'' True)) = []"
proof -
  have ev: "map (\<lambda>p. (p, outcome_of demo_fs p)) (demo_heap 0)
     = [(''file10.pdf'', Merged 2), (''notes.txt'', SkippedNotPdf),
        (''file2.pdf'', Merged 1), (''locked.pdf'', SkippedUnexpectedError PdfReadError),
        (''missing.pdf'', SkippedNotFound), (''file1.pdf'', Merged 2),
        (''empty.pdf'', SkippedEmptyOrCorrupt),
        (''broken.pdf'', SkippedUnexpectedError PdfReadError)]"
    by code_simp
  have cm: "completed (merge_pdfs demo_fs ok_env demo_heap 0 ''out.pdf'' False) = Returned True"
    by code_simp
  have cs: "classify_spec demo_fs ''locked.pdf'' = SkippedEncryptedUndecryptable" by code_simp
  have 1: "demo_fs ''missing.pdf'' = None" by code_simp
  have 2: "demo_fs ''notes.txt'' \<noteq> None" "\<not> endswith (lower ''notes.txt'') ''.pdf''"
    by code_simp+
  have 4: "endswith (lower ''locked.pdf'') ''.pdf''"
    "demo_fs ''locked.pdf'' = Some (Document locked_reader)"
    "is_encrypted locked_reader" "decrypt_empty locked_reader = NotDecrypted"
    "pages locked_reader = Inl PdfReadError"
    by code_simp+
  have 5: "endswith (lower ''unsupported.pdf'') ''.pdf''"
    "demo_fs ''unsupported.pdf'' = Some (Document unsupported_reader)"
    "is_encrypted unsupported_reader" "decrypt_empty unsupported_reader = DecryptRaises"
    by code_simp+
  have 6: "''broken.pdf'' \<noteq> ''file1.pdf''" by simp
  have k: "list_ex key_fails (raising_heap 0)" by code_simp
  note t = per_file_recovery [where fs = demo_fs and env = ok_env and h = demo_heap
      and ip = 0 and out = "''out.pdf''" and srt = False]
  have a: "outcomes (final (merge_pdfs demo_fs ok_env demo_heap 0 ''out.pdf'' False))
     = map (\<lambda>p. (p, outcome_of demo_fs p)) (demo_heap 0)"
    using t [where p = "''missing.pdf''"] cm by simp
  have b: "outcome_of demo_fs ''missing.pdf'' = SkippedNotFound"
    using t [where p = "''missing.pdf''"] 1 by blast
  have c: "outcome_of demo_fs ''notes.txt'' = SkippedNotPdf"
    using t [where p = "''notes.txt''"] 2 by blast
  have d: "outcome_of demo_fs ''locked.pdf'' = SkippedUnexpectedError PdfReadError"
    using t [where p = "''locked.pdf''" and rd = locked_reader and e = PdfReadError] 4
    by blast
  have e: "outcome_of demo_fs ''unsupported.pdf'' = SkippedEncryptedUndecryptable"
    using t [where p = "''unsupported.pdf''" and rd = unsupported_reader] 5 by blast
  have g: "outcome_of (demo_fs(''broken.pdf'' := None)) ''file1.pdf''
      = outcome_of demo_fs ''file1.pdf''"
    using t [where p = "''file1.pdf''" and q = "''broken.pdf''" and x = None] 6 by blast
  have r: "completed (merge_pdfs demo_fs ok_env raising_heap 0 ''out.pdf'' True)
      = Raised ValueError"
    using k per_file_recovery [where fs = demo_fs and env = ok_env and h = raising_heap
      and ip = 0 and out = "''out.pdf''" and srt = True and p = "''missing.pdf''"]
    by blast
  have r': "outcomes (final (merge_pdfs demo_fs ok_env raising_heap 0 ''out.pdf'' True)) = []"
    using r per_file_recovery [where fs = demo_fs and env = ok_env and h = raising_heap
      and ip = 0 and out = "''out.pdf''" and srt = True and p = "''missing.pdf''"]
    by simp
  show ?thesis using a b c d e g r r' cs unfolding ev by blast
qed

subsection \<open>Running twice\<close>




end
